theory Spec2Isabelle
  imports Complex_Main "HOL-Library.AList" "HOL-Library.Multiset"
begin

section \<open>The timer repository of \<open>src/lib/timer_store.js\<close>\<close>

text \<open>
  The module keeps a JSON array of timer records under one key of the browser's local
  storage, and publishes a map from timer id to live duration in a reactive store.
  The embedding below follows the JavaScript function by function.

  Conventions of the embedding.
  \<^item> A JavaScript \<open>number\<close> is an exact real; rounding of IEEE doubles is not modelled.
  \<^item> A \<open>Date\<close> is its time value, the integer number of milliseconds since the epoch.
    \<open>JSON.stringify\<close> writes a \<open>Date\<close> as its ISO string, which has millisecond
    precision, so that \<open>new Date(date).getTime()\<close> gives the time value back.
  \<^item> The text under the storage key is described by what \<open>JSON.parse\<close> does with it:
    it is rejected (\<open>Malformed\<close>), or it denotes an array whose elements are timer
    records or \<open>null\<close> (\<open>Json\<close>). \<open>JSON.stringify\<close> writes \<open>undefined\<close> array
    elements as \<open>null\<close>; both are \<open>None\<close> here. Texts that are valid JSON of another
    shape are outside the model.
  \<^item> The platform's clock and \<open>Math.random\<close> are sequences of readings held in the
    state, with a counter each: a call takes the next reading.
  \<^item> An operation returns the state it leaves together with either its result or the
    exception that escapes it.
\<close>

subsection \<open>Data\<close>

type_synonym number = real

type_synonym Date = int

text \<open>The view object built by \<open>convertTimerItem\<close>; \<open>requestFocus\<close> is \<open>undefined\<close>
  (\<open>None\<close>) when the second argument is omitted.\<close>

record TimerItem =
  id' :: string
  name :: string
  isRunning :: bool
  duration :: number
  offsetDuration :: number
  requestFocus :: "bool option"
  notes' :: string

text \<open>\<open>class TimerItemValue\<close>: the record as stored.\<close>

record TimerItemValue =
  id' :: string
  name :: string
  duration :: number
  started_at :: "Date option"
  notes' :: string

datatype js_error = SyntaxError | TypeError

datatype stored_text = Malformed | Json "TimerItemValue option list"

record world =
  localStorage :: "stored_text option"
  durationsStore :: "(string \<times> number) list"
  clock :: "nat \<Rightarrow> Date"
  clock_reads :: nat
  random :: "nat \<Rightarrow> real"
  random_reads :: nat

subsection \<open>Platform functions\<close>

definition new_Date :: "world \<Rightarrow> Date \<times> world" where
  "new_Date w = (clock w (clock_reads w), w\<lparr>clock_reads := Suc (clock_reads w)\<rparr>)"

definition Math_random :: "world \<Rightarrow> real \<times> world" where
  "Math_random w = (random w (random_reads w), w\<lparr>random_reads := Suc (random_reads w)\<rparr>)"

text \<open>\<open>String.prototype.charAt\<close>: the empty string outside the string.\<close>

definition charAt :: "string \<Rightarrow> int \<Rightarrow> string" where
  "charAt s i = (if 0 \<le> i \<and> i < int (length s) then [s ! nat i] else [])"

text \<open>How a template literal prints a natural number such as \<open>items.length + 1\<close>:
  its decimal digits, the most significant first.\<close>

definition digit :: "nat \<Rightarrow> char" where
  "digit d = ''0123456789'' ! d"

fun Number_toString :: "nat \<Rightarrow> string" where
  "Number_toString n =
     (if n \<ge> 10 then Number_toString (n div 10) @ [digit (n mod 10)] else [digit n])"

declare Number_toString.simps [simp del]

text \<open>\<open>new Map(pairs)\<close>: a later pair replaces the value of an earlier one with the
  same key, which keeps its place.\<close>

definition Map_new :: "(string \<times> number) list \<Rightarrow> (string \<times> number) list" where
  "Map_new pairs = foldl (\<lambda>m (k, v). AList.update k v m) [] pairs"

text \<open>\<open>Array.prototype.map\<close> with a callback that may read the clock and may throw.\<close>

fun Array_map ::
  "('a \<Rightarrow> world \<Rightarrow> (js_error + 'b) \<times> world) \<Rightarrow> 'a list \<Rightarrow> world \<Rightarrow> (js_error + 'b list) \<times> world"
where
  "Array_map f [] w = (Inr [], w)"
| "Array_map f (x # xs) w =
     (case f x w of
        (Inl e, w1) \<Rightarrow> (Inl e, w1)
      | (Inr y, w1) \<Rightarrow>
          (case Array_map f xs w1 of
             (Inl e, w2) \<Rightarrow> (Inl e, w2)
           | (Inr ys, w2) \<Rightarrow> (Inr (y # ys), w2)))"

text \<open>\<open>Array.prototype.filter\<close> and \<open>findIndex\<close> with a callback that may throw.\<close>

fun Array_filter :: "('a \<Rightarrow> js_error + bool) \<Rightarrow> 'a list \<Rightarrow> js_error + 'a list" where
  "Array_filter p [] = Inr []"
| "Array_filter p (x # xs) =
     (case p x of
        Inl e \<Rightarrow> Inl e
      | Inr b \<Rightarrow>
          (case Array_filter p xs of
             Inl e \<Rightarrow> Inl e
           | Inr ys \<Rightarrow> Inr (if b then x # ys else ys)))"

fun Array_findIndex :: "('a \<Rightarrow> js_error + bool) \<Rightarrow> 'a list \<Rightarrow> js_error + int" where
  "Array_findIndex p [] = Inr (- 1)"
| "Array_findIndex p (x # xs) =
     (case p x of
        Inl e \<Rightarrow> Inl e
      | Inr True \<Rightarrow> Inr 0
      | Inr False \<Rightarrow>
          (case Array_findIndex p xs of
             Inl e \<Rightarrow> Inl e
           | Inr i \<Rightarrow> Inr (if i = - 1 then - 1 else i + 1)))"

text \<open>Reading \<open>items[index]\<close>: \<open>undefined\<close> outside the array.\<close>

definition at_index :: "'a option list \<Rightarrow> int \<Rightarrow> 'a option" where
  "at_index xs i = (if 0 \<le> i \<and> i < int (length xs) then xs ! nat i else None)"

subsection \<open>The module's functions\<close>

definition elapsedSince :: "Date option \<Rightarrow> world \<Rightarrow> number \<times> world" where
  "elapsedSince date w =
     (case date of
        None \<Rightarrow> (0, w)
      | Some t \<Rightarrow>
          (case new_Date w of (n, w1) \<Rightarrow> ((real_of_int n - real_of_int t) / 1000, w1)))"

definition characters :: string where
  "characters = ''ABCDEFGHIJKLMNOPQRSTUVWXYZabcdefghijklmnopqrstuvwxyz0123456789''"

text \<open>The loop of \<open>generateRandomID\<close>, by the number of rounds left.\<close>

fun generateRandomID_loop :: "nat \<Rightarrow> string \<Rightarrow> world \<Rightarrow> string \<times> world" where
  "generateRandomID_loop 0 result w = (result, w)"
| "generateRandomID_loop (Suc n) result w =
     (case Math_random w of
        (r, w1) \<Rightarrow>
          generateRandomID_loop n
            (result @ charAt characters \<lfloor>r * real (length characters)\<rfloor>) w1)"

definition generateRandomID :: "world \<Rightarrow> string \<times> world" where
  "generateRandomID w = generateRandomID_loop 8 [] w"

definition getItems :: "world \<Rightarrow> stored_text option" where
  "getItems w = localStorage w"

definition JSON_parse :: "stored_text \<Rightarrow> js_error + TimerItemValue option list" where
  "JSON_parse s = (case s of Malformed \<Rightarrow> Inl SyntaxError | Json v \<Rightarrow> Inr v)"

definition JSON_stringify :: "TimerItemValue option list \<Rightarrow> stored_text" where
  "JSON_stringify items = Json items"

definition fetchTimerItemsFromStore :: "world \<Rightarrow> js_error + TimerItemValue option list" where
  "fetchTimerItemsFromStore w =
     (case getItems w of
        Some items \<Rightarrow> JSON_parse items
      | None \<Rightarrow> Inr [])"

text \<open>The callback of \<open>updateDurations\<close>; reading \<open>item.id\<close> of \<open>null\<close> or
  \<open>undefined\<close> throws.\<close>

definition duration_entry ::
  "TimerItemValue option \<Rightarrow> world \<Rightarrow> (js_error + string \<times> number) \<times> world"
where
  "duration_entry item w =
     (case item of
        None \<Rightarrow> (Inl TypeError, w)
      | Some t \<Rightarrow>
          (case elapsedSince (started_at t) w of
             (e, w1) \<Rightarrow> (Inr (id' t, duration t + e), w1)))"

definition updateDurations :: "TimerItemValue option list \<Rightarrow> world \<Rightarrow> (js_error + unit) \<times> world" where
  "updateDurations items w =
     (case Array_map duration_entry items w of
        (Inl e, w1) \<Rightarrow> (Inl e, w1)
      | (Inr pairs, w1) \<Rightarrow> (Inr (), w1\<lparr>durationsStore := Map_new pairs\<rparr>))"

definition setItems :: "TimerItemValue option list \<Rightarrow> world \<Rightarrow> (js_error + unit) \<times> world" where
  "setItems items w = updateDurations items (w\<lparr>localStorage := Some (JSON_stringify items)\<rparr>)"

definition convertTimerItem :: "TimerItemValue \<Rightarrow> bool option \<Rightarrow> world \<Rightarrow> TimerItem \<times> world" where
  "convertTimerItem timer rf w =
     (case elapsedSince (started_at timer) w of
        (e, w1) \<Rightarrow>
          (\<lparr>TimerItem.id' = id' timer,
            TimerItem.name = name timer,
            isRunning = (started_at timer \<noteq> None),
            TimerItem.duration = 0,
            offsetDuration = duration timer + e,
            requestFocus = rf,
            TimerItem.notes' = notes' timer\<rparr>, w1))"

text \<open>The callbacks \<open>timer => convertTimerItem(timer)\<close> and
  \<open>timer => convertTimerItem(timer, timer.id === id)\<close>.\<close>

definition convert_plain ::
  "TimerItemValue option \<Rightarrow> world \<Rightarrow> (js_error + TimerItem) \<times> world"
where
  "convert_plain item w =
     (case item of
        None \<Rightarrow> (Inl TypeError, w)
      | Some timer \<Rightarrow> (case convertTimerItem timer None w of (v, w1) \<Rightarrow> (Inr v, w1)))"

definition convert_focus ::
  "string \<Rightarrow> TimerItemValue option \<Rightarrow> world \<Rightarrow> (js_error + TimerItem) \<times> world"
where
  "convert_focus i item w =
     (case item of
        None \<Rightarrow> (Inl TypeError, w)
      | Some timer \<Rightarrow>
          (case convertTimerItem timer (Some (id' timer = i)) w of (v, w1) \<Rightarrow> (Inr v, w1)))"

text \<open>The callbacks \<open>item => item.id === id\<close> and \<open>item => item.id !== id\<close>.\<close>

definition id_is :: "string \<Rightarrow> TimerItemValue option \<Rightarrow> js_error + bool" where
  "id_is i item = (case item of None \<Rightarrow> Inl TypeError | Some t \<Rightarrow> Inr (id' t = i))"

definition id_is_not :: "string \<Rightarrow> TimerItemValue option \<Rightarrow> js_error + bool" where
  "id_is_not i item = (case item of None \<Rightarrow> Inl TypeError | Some t \<Rightarrow> Inr (id' t \<noteq> i))"

definition updateTimerItemInStore ::
  "string \<Rightarrow> (TimerItemValue \<Rightarrow> world \<Rightarrow> TimerItemValue \<times> world) \<Rightarrow> world
     \<Rightarrow> (js_error + TimerItem list option) \<times> world"
where
  "updateTimerItemInStore i cb w =
     (case fetchTimerItemsFromStore w of
        Inl e \<Rightarrow> (Inl e, w)
      | Inr items \<Rightarrow>
          (case Array_findIndex (id_is i) items of
             Inl e \<Rightarrow> (Inl e, w)
           | Inr index \<Rightarrow>
               if index \<noteq> - 1 then
                 (case at_index items index of
                    None \<Rightarrow> (Inl TypeError, w)
                  | Some item \<Rightarrow>
                      (case cb item w of
                         (item1, w1) \<Rightarrow>
                           (let items1 = items[nat index := Some item1] in
                            case setItems items1 w1 of
                              (Inl e, w2) \<Rightarrow> (Inl e, w2)
                            | (Inr u, w2) \<Rightarrow>
                                (case Array_map convert_plain items1 w2 of
                                   (Inl e, w3) \<Rightarrow> (Inl e, w3)
                                 | (Inr views, w3) \<Rightarrow> (Inr (Some views), w3)))))
               else (Inr None, w)))"

subsection \<open>The methods of \<open>TimerStore\<close>\<close>

definition list :: "world \<Rightarrow> (js_error + TimerItem list) \<times> world" where
  "list w =
     (case fetchTimerItemsFromStore w of
        Inl e \<Rightarrow> (Inl e, w)
      | Inr items \<Rightarrow>
          (case updateDurations items w of
             (Inl e, w1) \<Rightarrow> (Inl e, w1)
           | (Inr u, w1) \<Rightarrow> Array_map convert_plain items w1))"

definition create :: "world \<Rightarrow> (js_error + TimerItem list) \<times> world" where
  "create w =
     (case fetchTimerItemsFromStore w of
        Inl e \<Rightarrow> (Inl e, w)
      | Inr items \<Rightarrow>
          (case generateRandomID w of
             (i, w1) \<Rightarrow>
               (let newTimer =
                      \<lparr>id' = i, name = ''Timer '' @ Number_toString (length items + 1),
                       duration = 0, started_at = None, notes' = ''''\<rparr>;
                    items1 = items @ [Some newTimer]
                in case setItems items1 w1 of
                     (Inl e, w2) \<Rightarrow> (Inl e, w2)
                   | (Inr u, w2) \<Rightarrow> Array_map (convert_focus i) items1 w2)))"

definition delete :: "string \<Rightarrow> world \<Rightarrow> (js_error + TimerItem list) \<times> world" where
  "delete i w =
     (case fetchTimerItemsFromStore w of
        Inl e \<Rightarrow> (Inl e, w)
      | Inr items \<Rightarrow>
          (case Array_filter (id_is_not i) items of
             Inl e \<Rightarrow> (Inl e, w)
           | Inr items1 \<Rightarrow>
               (case setItems items1 w of
                  (Inl e, w1) \<Rightarrow> (Inl e, w1)
                | (Inr u, w1) \<Rightarrow> Array_map convert_plain items1 w1)))"

definition start :: "string \<Rightarrow> world \<Rightarrow> (js_error + TimerItem list option) \<times> world" where
  "start i w =
     updateTimerItemInStore i
       (\<lambda>item w0. case new_Date w0 of (d, w1) \<Rightarrow> (item\<lparr>started_at := Some d\<rparr>, w1)) w"

definition pause :: "string \<Rightarrow> world \<Rightarrow> (js_error + TimerItem list option) \<times> world" where
  "pause i w =
     updateTimerItemInStore i
       (\<lambda>item w0. case elapsedSince (started_at item) w0 of
                     (e, w1) \<Rightarrow> (item\<lparr>duration := duration item + e, started_at := None\<rparr>, w1)) w"

definition reset :: "string \<Rightarrow> world \<Rightarrow> (js_error + TimerItem list option) \<times> world" where
  "reset i w =
     updateTimerItemInStore i (\<lambda>item w0. (item\<lparr>started_at := None, duration := 0\<rparr>, w0)) w"

definition updateName :: "string \<Rightarrow> string \<Rightarrow> world \<Rightarrow> (js_error + TimerItem list option) \<times> world" where
  "updateName i n w = updateTimerItemInStore i (\<lambda>item w0. (item\<lparr>name := n\<rparr>, w0)) w"

definition updateNotes :: "string \<Rightarrow> string \<Rightarrow> world \<Rightarrow> (js_error + TimerItem list option) \<times> world" where
  "updateNotes i n w = updateTimerItemInStore i (\<lambda>item w0. (item\<lparr>notes' := n\<rparr>, w0)) w"

definition updateDuration :: "string \<Rightarrow> number \<Rightarrow> world \<Rightarrow> (js_error + TimerItem list option) \<times> world" where
  "updateDuration i d w = updateTimerItemInStore i (\<lambda>item w0. (item\<lparr>duration := d\<rparr>, w0)) w"

text \<open>The loop of \<open>sortByIds\<close> over the indices of \<open>ids\<close>: a \<open>findIndex\<close> that finds
  nothing gives \<open>-1\<close>, and \<open>storeItems[-1]\<close> is \<open>undefined\<close>.\<close>

fun sortedItems_of :: "TimerItemValue option list \<Rightarrow> string list \<Rightarrow> js_error + TimerItemValue option list" where
  "sortedItems_of storeItems [] = Inr []"
| "sortedItems_of storeItems (i # ids) =
     (case Array_findIndex (id_is i) storeItems of
        Inl e \<Rightarrow> Inl e
      | Inr index \<Rightarrow>
          (case sortedItems_of storeItems ids of
             Inl e \<Rightarrow> Inl e
           | Inr rest \<Rightarrow> Inr (at_index storeItems index # rest)))"

definition sortByIds :: "string list \<Rightarrow> world \<Rightarrow> (js_error + unit) \<times> world" where
  "sortByIds ids w =
     (case fetchTimerItemsFromStore w of
        Inl e \<Rightarrow> (Inl e, w)
      | Inr storeItems \<Rightarrow>
          if length ids \<noteq> length storeItems then (Inr (), w)
          else
            (case sortedItems_of storeItems ids of
               Inl e \<Rightarrow> (Inl e, w)
             | Inr sortedItems \<Rightarrow> setItems sortedItems w))"

subsection \<open>Calls of a client\<close>

text \<open>A client calls the methods one after the other; a call that throws leaves the
  state it had reached, and the client may go on.\<close>

datatype call =
  List
| Create
| Delete string
| Start string
| Pause string
| Reset string
| UpdateName string string
| UpdateNotes string string
| UpdateDuration string number
| SortByIds "string list"

datatype returned = Views "TimerItem list" | Null | Undefined

definition ret_views :: "(js_error + TimerItem list) \<times> world \<Rightarrow> (js_error + returned) \<times> world" where
  "ret_views r = (case r of (Inl e, w) \<Rightarrow> (Inl e, w) | (Inr vs, w) \<Rightarrow> (Inr (Views vs), w))"

definition ret_views_or_null ::
  "(js_error + TimerItem list option) \<times> world \<Rightarrow> (js_error + returned) \<times> world"
where
  "ret_views_or_null r =
     (case r of
        (Inl e, w) \<Rightarrow> (Inl e, w)
      | (Inr None, w) \<Rightarrow> (Inr Null, w)
      | (Inr (Some vs), w) \<Rightarrow> (Inr (Views vs), w))"

definition ret_undefined :: "(js_error + unit) \<times> world \<Rightarrow> (js_error + returned) \<times> world" where
  "ret_undefined r = (case r of (Inl e, w) \<Rightarrow> (Inl e, w) | (Inr u, w) \<Rightarrow> (Inr Undefined, w))"

fun run :: "call \<Rightarrow> world \<Rightarrow> (js_error + returned) \<times> world" where
  "run List w = ret_views (list w)"
| "run Create w = ret_views (create w)"
| "run (Delete i) w = ret_views (delete i w)"
| "run (Start i) w = ret_views_or_null (start i w)"
| "run (Pause i) w = ret_views_or_null (pause i w)"
| "run (Reset i) w = ret_views_or_null (reset i w)"
| "run (UpdateName i n) w = ret_views_or_null (updateName i n w)"
| "run (UpdateNotes i n) w = ret_views_or_null (updateNotes i n w)"
| "run (UpdateDuration i d) w = ret_views_or_null (updateDuration i d w)"
| "run (SortByIds ids) w = ret_undefined (sortByIds ids w)"

fun run_all :: "call list \<Rightarrow> world \<Rightarrow> world" where
  "run_all [] w = w"
| "run_all (c # cs) w = run_all cs (snd (run c w))"

subsection \<open>Notions used to state the properties\<close>

text \<open>The records of the stored collection, and their ids, in stored order.\<close>

definition stored_records :: "world \<Rightarrow> TimerItemValue list" where
  "stored_records w =
     (case fetchTimerItemsFromStore w of
        Inl e \<Rightarrow> []
      | Inr items \<Rightarrow> List.map_filter (\<lambda>item. item) items)"

definition stored_ids :: "world \<Rightarrow> string list" where
  "stored_ids w = map id' (stored_records w)"

text \<open>The ids of the records of an array, its \<open>null\<close> elements skipped.\<close>

definition ids_of :: "TimerItemValue option list \<Rightarrow> string list" where
  "ids_of xs = map id' (List.map_filter (\<lambda>x. x) xs)"

text \<open>\<open>first_index items i k\<close>: position \<open>k\<close> holds the first record whose id is \<open>i\<close>.\<close>

definition first_index :: "TimerItemValue list \<Rightarrow> string \<Rightarrow> nat \<Rightarrow> bool" where
  "first_index items i k =
     (k < length items \<and> id' (items ! k) = i \<and> i \<notin> set (map id' (take k items)))"

text \<open>\<open>only_clock w w'\<close>: from \<open>w\<close> to \<open>w'\<close> nothing happened but readings of the clock.\<close>

definition only_clock :: "world \<Rightarrow> world \<Rightarrow> bool" where
  "only_clock w w' =
     (clock_reads w \<le> clock_reads w' \<and> w' = w\<lparr>clock_reads := clock_reads w'\<rparr>)"

text \<open>\<open>live_total clk lo hi r v\<close>: \<open>v\<close> is the stored duration of \<open>r\<close>, plus, when \<open>r\<close> is
  running, the seconds from its \<open>started_at\<close> to one of the clock readings number \<open>lo\<close>
  to \<open>hi - 1\<close>.\<close>

definition live_total :: "(nat \<Rightarrow> Date) \<Rightarrow> nat \<Rightarrow> nat \<Rightarrow> TimerItemValue \<Rightarrow> number \<Rightarrow> bool" where
  "live_total clk lo hi r v =
     (case started_at r of
        None \<Rightarrow> v = duration r
      | Some t \<Rightarrow>
          (\<exists>k \<in> {lo..<hi}. v = duration r + (real_of_int (clk k) - real_of_int t) / 1000))"

text \<open>\<open>view_of clk lo hi v r\<close>: \<open>v\<close> is a view of the record \<open>r\<close>, computed at one of the
  clock readings number \<open>lo\<close> to \<open>hi - 1\<close>.\<close>

definition view_of :: "(nat \<Rightarrow> Date) \<Rightarrow> nat \<Rightarrow> nat \<Rightarrow> TimerItem \<Rightarrow> TimerItemValue \<Rightarrow> bool" where
  "view_of clk lo hi v r =
     (TimerItem.id' v = id' r \<and> TimerItem.name v = name r \<and> TimerItem.notes' v = notes' r \<and>
      isRunning v = (started_at r \<noteq> None) \<and>
      TimerItem.duration v = 0 \<and>
      live_total clk lo hi r (offsetDuration v))"

text \<open>\<open>Math.random\<close> returns a number from 0 up to, but not including, 1.\<close>

definition unit_random :: "world \<Rightarrow> bool" where
  "unit_random w = (\<forall>k. 0 \<le> random w k \<and> random w k < 1)"

text \<open>\<open>guarded cs w\<close>: in the calls \<open>cs\<close>, made from \<open>w\<close> on, every \<open>create\<close> draws an id
  that no stored record has, and every \<open>sortByIds\<close> is given pairwise distinct ids.\<close>

fun guarded :: "call list \<Rightarrow> world \<Rightarrow> bool" where
  "guarded [] w = True"
| "guarded (Create # cs) w =
     (fst (generateRandomID w) \<notin> set (stored_ids w) \<and> guarded cs (snd (run Create w)))"
| "guarded (SortByIds ids # cs) w =
     (distinct ids \<and> guarded cs (snd (run (SortByIds ids) w)))"
| "guarded (c # cs) w = guarded cs (snd (run c w))"

text \<open>\<open>entry_of clk lo hi p r\<close>: the pair \<open>p\<close> is the entry of the published map for the
  record \<open>r\<close>: its id and its live total.\<close>

definition entry_of :: "(nat \<Rightarrow> Date) \<Rightarrow> nat \<Rightarrow> nat \<Rightarrow> string \<times> number \<Rightarrow> TimerItemValue \<Rightarrow> bool" where
  "entry_of clk lo hi p r = (fst p = id' r \<and> live_total clk lo hi r (snd p))"

text \<open>\<open>persisted w w' items\<close>: from \<open>w\<close> to \<open>w'\<close> the records \<open>items\<close> were written to
  the storage and their live totals were published; besides, only the clock was read.\<close>

definition persisted :: "world \<Rightarrow> world \<Rightarrow> TimerItemValue list \<Rightarrow> bool" where
  "persisted w w' items =
     (localStorage w' = Some (Json (map Some items)) \<and>
      clock w' = clock w \<and> clock_reads w \<le> clock_reads w' \<and>
      random w' = random w \<and> random_reads w' = random_reads w \<and>
      (\<exists>ps. durationsStore w' = Map_new ps \<and>
            list_all2 (entry_of (clock w) (clock_reads w) (clock_reads w')) ps items))"

text \<open>\<open>published w w' items\<close>: in \<open>w'\<close> the stored collection is \<open>items\<close>, and the
  published map was built from the live totals of \<open>items\<close>, taken at clock readings
  between \<open>w\<close> and \<open>w'\<close>.\<close>

definition published :: "world \<Rightarrow> world \<Rightarrow> TimerItemValue list \<Rightarrow> bool" where
  "published w w' items =
     (fetchTimerItemsFromStore w' = Inr (map Some items) \<and>
      clock w' = clock w \<and> clock_reads w \<le> clock_reads w' \<and>
      (\<exists>ps. durationsStore w' = Map_new ps \<and>
            list_all2 (entry_of (clock w) (clock_reads w) (clock_reads w')) ps items))"

text \<open>\<open>publishes c w res\<close>: the call \<open>c\<close>, made in \<open>w\<close> and returning \<open>res\<close>, is one that
  publishes: every call but a verb that found no record, which returns \<open>null\<close>, and a
  \<open>sortByIds\<close> whose list of ids has not the length of the stored array.\<close>

definition publishes :: "call \<Rightarrow> world \<Rightarrow> returned \<Rightarrow> bool" where
  "publishes c w res =
     (res \<noteq> Null \<and>
      (case c of
         SortByIds ids \<Rightarrow>
           (case fetchTimerItemsFromStore w of
              Inl e \<Rightarrow> False
            | Inr xs \<Rightarrow> length ids = length xs)
       | _ \<Rightarrow> True))"

text \<open>The record that \<open>pause\<close> writes for \<open>r\<close>, the clock being read in \<open>w\<close>.\<close>

definition paused :: "world \<Rightarrow> TimerItemValue \<Rightarrow> TimerItemValue" where
  "paused w r =
     r\<lparr>duration := duration r +
          (case started_at r of
             None \<Rightarrow> 0
           | Some t \<Rightarrow> (real_of_int (clock w (clock_reads w)) - real_of_int t) / 1000),
       started_at := None\<rparr>"

text \<open>The record that \<open>create\<close> appends to \<open>n\<close> stored items, with the id \<open>i\<close>.\<close>

definition newTimer :: "string \<Rightarrow> nat \<Rightarrow> TimerItemValue" where
  "newTimer i n =
     \<lparr>id' = i, name = ''Timer '' @ Number_toString (n + 1), duration = 0, started_at = None,
      notes' = ''''\<rparr>"

subsection \<open>Example states\<close>

text \<open>A clock that advances by a second at every reading, and a random source that
  cycles through eight values.\<close>

definition empty_world :: world where
  "empty_world =
     \<lparr>localStorage = None, durationsStore = [],
      clock = (\<lambda>n. 1000 * int n), clock_reads = 0,
      random = (\<lambda>n. real (n mod 8) / 8), random_reads = 0\<rparr>"

definition timer_a :: TimerItemValue where
  "timer_a = \<lparr>id' = ''a'', name = ''Timer 1'', duration = 10, started_at = Some (- 5000), notes' = ''''\<rparr>"

definition timer_b :: TimerItemValue where
  "timer_b = \<lparr>id' = ''b'', name = ''Timer 2'', duration = 3, started_at = None, notes' = ''x''\<rparr>"

definition world_ab :: world where
  "world_ab = empty_world\<lparr>localStorage := Some (Json [Some timer_a, Some timer_b])\<rparr>"

definition world_malformed :: world where
  "world_malformed = empty_world\<lparr>localStorage := Some Malformed\<rparr>"

text \<open>The views that \<open>list()\<close> returns in \<open>world_ab\<close>.\<close>

definition view_a :: TimerItem where
  "view_a = \<lparr>TimerItem.id' = ''a'', TimerItem.name = ''Timer 1'', isRunning = True,
             TimerItem.duration = 0, offsetDuration = 16, requestFocus = None,
             TimerItem.notes' = ''''\<rparr>"

definition view_b :: TimerItem where
  "view_b = \<lparr>TimerItem.id' = ''b'', TimerItem.name = ''Timer 2'', isRunning = False,
             TimerItem.duration = 0, offsetDuration = 3, requestFocus = None,
             TimerItem.notes' = ''x''\<rparr>"

text \<open>A random source with a longer period, and calls made from the empty store.\<close>

definition fresh_world :: world where
  "fresh_world = empty_world\<lparr>random := (\<lambda>n. real (n mod 31) / 31)\<rparr>"

definition example_calls :: "call list" where
  "example_calls =
     [Create, Create, Start ''ACEGIKMO'', SortByIds [''QSUWYace'', ''ACEGIKMO''], Create,
      Pause ''ACEGIKMO'', Delete ''QSUWYace'', UpdateName ''gikmoqsu'' ''tea'', List]"

section \<open>Lemmas\<close>

subsection \<open>Clock readings\<close>

lemma only_clock_refl: "only_clock w w"
  by (simp add: only_clock_def)

lemma only_clock_trans: "only_clock w w1 \<Longrightarrow> only_clock w1 w2 \<Longrightarrow> only_clock w w2"
  unfolding only_clock_def
  by (cases w, cases w1, cases w2) auto

lemma only_clock_fields:
  assumes "only_clock w w'"
  shows "localStorage w' = localStorage w" "durationsStore w' = durationsStore w"
    "clock w' = clock w" "random w' = random w" "random_reads w' = random_reads w"
    "clock_reads w \<le> clock_reads w'"
proof -
  from assms have le: "clock_reads w \<le> clock_reads w'"
    and eq: "w' = w\<lparr>clock_reads := clock_reads w'\<rparr>"
    by (simp_all add: only_clock_def)
  show "clock_reads w \<le> clock_reads w'" by (rule le)
  show "localStorage w' = localStorage w" by (subst eq) simp
  show "durationsStore w' = durationsStore w" by (subst eq) simp
  show "clock w' = clock w" by (subst eq) simp
  show "random w' = random w" by (subst eq) simp
  show "random_reads w' = random_reads w" by (subst eq) simp
qed

lemma new_Date_only_clock: "new_Date w = (d, w') \<Longrightarrow> only_clock w w'"
  by (auto simp: new_Date_def only_clock_def)

lemma elapsedSince_None: "elapsedSince None w = (0, w)"
  by (simp add: elapsedSince_def)

lemma elapsedSince_Some:
  "elapsedSince (Some t) w =
     ((real_of_int (clock w (clock_reads w)) - real_of_int t) / 1000,
      w\<lparr>clock_reads := Suc (clock_reads w)\<rparr>)"
  by (simp add: elapsedSince_def new_Date_def)

lemma elapsedSince_only_clock: "elapsedSince d w = (e, w') \<Longrightarrow> only_clock w w'"
  by (cases d) (auto simp: elapsedSince_None elapsedSince_Some only_clock_def)

lemma live_total_mono:
  "live_total clk lo hi r v \<Longrightarrow> lo' \<le> lo \<Longrightarrow> hi \<le> hi' \<Longrightarrow> live_total clk lo' hi' r v"
  unfolding live_total_def by (cases "started_at r") force+

lemma elapsedSince_live_total:
  "elapsedSince (started_at r) w = (e, w') \<Longrightarrow>
     live_total (clock w) (clock_reads w) (clock_reads w') r (duration r + e)"
  by (cases "started_at r") (auto simp: elapsedSince_None elapsedSince_Some live_total_def)

subsection \<open>Arrays of records\<close>

lemma Array_map_Inr:
  assumes f: "\<And>x w y w'. clock w = clk \<Longrightarrow> f x w = (Inr y, w') \<Longrightarrow>
                \<exists>r. x = Some r \<and> only_clock w w' \<and> R (clock_reads w) (clock_reads w') y r"
    and mono: "\<And>lo hi lo' hi' y r. R lo hi y r \<Longrightarrow> lo' \<le> lo \<Longrightarrow> hi \<le> hi' \<Longrightarrow> R lo' hi' y r"
  shows "clock w = clk \<Longrightarrow> Array_map f xs w = (Inr ys, w') \<Longrightarrow>
           \<exists>items. xs = map Some items \<and> only_clock w w' \<and>
                   list_all2 (R (clock_reads w) (clock_reads w')) ys items"
proof (induction xs arbitrary: w ys w')
  case Nil
  then show ?case by (simp add: only_clock_refl)
next
  case (Cons x xs)
  from Cons.prems obtain y w1 ys1 where
    fx: "f x w = (Inr y, w1)" and rest: "Array_map f xs w1 = (Inr ys1, w')" and ys: "ys = y # ys1"
    by (auto split: prod.splits sum.splits)
  from f [OF Cons.prems(1) fx] obtain r where
    x: "x = Some r" and oc1: "only_clock w w1" and R1: "R (clock_reads w) (clock_reads w1) y r"
    by blast
  have clk1: "clock w1 = clk"
    using oc1 Cons.prems(1) by (simp add: only_clock_fields)
  from Cons.IH [OF clk1 rest] obtain items where
    xs: "xs = map Some items" and oc2: "only_clock w1 w'"
    and R2: "list_all2 (R (clock_reads w1) (clock_reads w')) ys1 items"
    by blast
  have le1: "clock_reads w \<le> clock_reads w1" and le2: "clock_reads w1 \<le> clock_reads w'"
    using oc1 oc2 by (simp_all add: only_clock_def)
  have "R (clock_reads w) (clock_reads w') y r"
    using mono [OF R1 order_refl le2] .
  moreover have "list_all2 (R (clock_reads w) (clock_reads w')) ys1 items"
    using R2 by (rule list_all2_mono) (rule mono [OF _ le1 order_refl])
  ultimately have "list_all2 (R (clock_reads w) (clock_reads w')) ys (r # items)"
    using ys by simp
  moreover have "x # xs = map Some (r # items)" using x xs by simp
  moreover have "only_clock w w'" using oc1 oc2 by (rule only_clock_trans)
  ultimately show ?case by (intro exI [of _ "r # items"] conjI)
qed

lemma Array_map_total:
  assumes f: "\<And>r w. \<exists>y w'. f (Some r) w = (Inr y, w')"
  shows "\<exists>ys w'. Array_map f (map Some items) w = (Inr ys, w')"
proof (induction items arbitrary: w)
  case Nil
  show ?case by simp
next
  case (Cons r items)
  from f obtain y w1 where "f (Some r) w = (Inr y, w1)" by blast
  moreover from Cons.IH obtain ys w2 where "Array_map f (map Some items) w1 = (Inr ys, w2)" by blast
  ultimately show ?case by simp
qed

lemma duration_entry_Inr:
  "duration_entry x w = (Inr p, w') \<Longrightarrow>
     \<exists>r. x = Some r \<and> only_clock w w' \<and>
         (fst p = id' r \<and> live_total (clock w) (clock_reads w) (clock_reads w') r (snd p))"
  by (auto simp: duration_entry_def elapsedSince_only_clock elapsedSince_live_total
           split: option.splits prod.splits)

lemma duration_entry_total: "\<exists>y w'. duration_entry (Some r) w = (Inr y, w')"
  by (simp add: duration_entry_def split: prod.splits)

lemma convertTimerItem_view_of:
  "convertTimerItem r rf w = (v, w') \<Longrightarrow>
     only_clock w w' \<and> view_of (clock w) (clock_reads w) (clock_reads w') v r \<and> requestFocus v = rf"
  by (auto simp: convertTimerItem_def view_of_def elapsedSince_only_clock elapsedSince_live_total
           split: prod.splits)

lemma convert_plain_Inr:
  "convert_plain x w = (Inr v, w') \<Longrightarrow>
     \<exists>r. x = Some r \<and> only_clock w w' \<and>
         (view_of (clock w) (clock_reads w) (clock_reads w') v r \<and> requestFocus v = None)"
  by (auto simp: convert_plain_def split: option.splits prod.splits dest: convertTimerItem_view_of)

lemma convert_focus_Inr:
  "convert_focus i x w = (Inr v, w') \<Longrightarrow>
     \<exists>r. x = Some r \<and> only_clock w w' \<and>
         (view_of (clock w) (clock_reads w) (clock_reads w') v r \<and> requestFocus v = Some (id' r = i))"
  by (auto simp: convert_focus_def split: option.splits prod.splits dest: convertTimerItem_view_of)

lemma convert_plain_total: "\<exists>y w'. convert_plain (Some r) w = (Inr y, w')"
  by (simp add: convert_plain_def split: prod.splits)

lemma convert_focus_total: "\<exists>y w'. convert_focus i (Some r) w = (Inr y, w')"
  by (simp add: convert_focus_def split: prod.splits)

subsection \<open>Publishing and persisting\<close>

lemma entry_of_mono:
  "entry_of clk lo hi p r \<Longrightarrow> lo' \<le> lo \<Longrightarrow> hi \<le> hi' \<Longrightarrow> entry_of clk lo' hi' p r"
  unfolding entry_of_def using live_total_mono by blast

lemma view_of_mono:
  "view_of clk lo hi v r \<Longrightarrow> lo' \<le> lo \<Longrightarrow> hi \<le> hi' \<Longrightarrow> view_of clk lo' hi' v r"
  unfolding view_of_def using live_total_mono by blast

lemma duration_entries_Inr:
  assumes "Array_map duration_entry xs w = (Inr ps, w')"
  shows "\<exists>items. xs = map Some items \<and> only_clock w w' \<and>
           list_all2 (entry_of (clock w) (clock_reads w) (clock_reads w')) ps items"
proof (rule Array_map_Inr [where clk = "clock w" and R = "entry_of (clock w)", OF _ _ refl assms])
  fix x w0 y w1
  assume "clock w0 = clock w" and "duration_entry x w0 = (Inr y, w1)"
  then show "\<exists>r. x = Some r \<and> only_clock w0 w1 \<and> entry_of (clock w) (clock_reads w0) (clock_reads w1) y r"
    using duration_entry_Inr [of x w0 y w1] by (auto simp: entry_of_def)
next
  fix lo hi lo' hi' :: nat and y r
  assume "entry_of (clock w) lo hi y r" "lo' \<le> lo" "hi \<le> hi'"
  then show "entry_of (clock w) lo' hi' y r" by (rule entry_of_mono)
qed

lemma convert_plain_all_Inr:
  assumes "Array_map convert_plain xs w = (Inr vs, w')"
  shows "\<exists>items. xs = map Some items \<and> only_clock w w' \<and>
           list_all2 (\<lambda>v r. view_of (clock w) (clock_reads w) (clock_reads w') v r \<and> requestFocus v = None)
             vs items"
proof (rule Array_map_Inr [where clk = "clock w"
        and R = "\<lambda>lo hi v r. view_of (clock w) lo hi v r \<and> requestFocus v = None", OF _ _ refl assms])
  fix x w0 y w1
  assume "clock w0 = clock w" and "convert_plain x w0 = (Inr y, w1)"
  then show "\<exists>r. x = Some r \<and> only_clock w0 w1 \<and>
               (view_of (clock w) (clock_reads w0) (clock_reads w1) y r \<and> requestFocus y = None)"
    using convert_plain_Inr [of x w0 y w1] by auto
next
  fix lo hi lo' hi' :: nat and y r
  assume "view_of (clock w) lo hi y r \<and> requestFocus y = None" "lo' \<le> lo" "hi \<le> hi'"
  then show "view_of (clock w) lo' hi' y r \<and> requestFocus y = None"
    using view_of_mono by blast
qed

lemma convert_focus_all_Inr:
  assumes "Array_map (convert_focus i) xs w = (Inr vs, w')"
  shows "\<exists>items. xs = map Some items \<and> only_clock w w' \<and>
           list_all2 (\<lambda>v r. view_of (clock w) (clock_reads w) (clock_reads w') v r \<and>
                            requestFocus v = Some (id' r = i))
             vs items"
proof (rule Array_map_Inr [where clk = "clock w"
        and R = "\<lambda>lo hi v r. view_of (clock w) lo hi v r \<and> requestFocus v = Some (id' r = i)",
        OF _ _ refl assms])
  fix x w0 y w1
  assume "clock w0 = clock w" and "convert_focus i x w0 = (Inr y, w1)"
  then show "\<exists>r. x = Some r \<and> only_clock w0 w1 \<and>
               (view_of (clock w) (clock_reads w0) (clock_reads w1) y r \<and>
                requestFocus y = Some (id' r = i))"
    using convert_focus_Inr [of i x w0 y w1] by auto
next
  fix lo hi lo' hi' :: nat and y r
  assume "view_of (clock w) lo hi y r \<and> requestFocus y = Some (id' r = i)" "lo' \<le> lo" "hi \<le> hi'"
  then show "view_of (clock w) lo' hi' y r \<and> requestFocus y = Some (id' r = i)"
    using view_of_mono by blast
qed

lemma updateDurations_Inr:
  assumes "updateDurations xs w = (Inr u, w')"
  shows "\<exists>items ps w1. xs = map Some items \<and> only_clock w w1 \<and>
           w' = w1\<lparr>durationsStore := Map_new ps\<rparr> \<and>
           list_all2 (entry_of (clock w) (clock_reads w) (clock_reads w1)) ps items"
proof -
  from assms obtain ps w1 where
    m: "Array_map duration_entry xs w = (Inr ps, w1)" and w': "w' = w1\<lparr>durationsStore := Map_new ps\<rparr>"
    by (auto simp: updateDurations_def split: prod.splits sum.splits)
  from duration_entries_Inr [OF m] w' show ?thesis by blast
qed

lemma updateDurations_total: "\<exists>w'. updateDurations (map Some items) w = (Inr (), w')"
proof -
  obtain ps w1 where "Array_map duration_entry (map Some items) w = (Inr ps, w1)"
    using Array_map_total [of duration_entry items w] duration_entry_total by blast
  then show ?thesis by (simp add: updateDurations_def)
qed

lemma setItems_total: "\<exists>w'. setItems (map Some items) w = (Inr (), w')"
  by (simp add: setItems_def updateDurations_total)

lemma setItems_Inr:
  assumes "setItems xs w = (Inr u, w')"
  shows "\<exists>items. xs = map Some items \<and> persisted w w' items"
proof -
  let ?w0 = "w\<lparr>localStorage := Some (JSON_stringify xs)\<rparr>"
  from assms have "updateDurations xs ?w0 = (Inr u, w')" by (simp add: setItems_def)
  from updateDurations_Inr [OF this] obtain items ps w1 where
    xs: "xs = map Some items" and oc: "only_clock ?w0 w1"
    and w': "w' = w1\<lparr>durationsStore := Map_new ps\<rparr>"
    and es: "list_all2 (entry_of (clock ?w0) (clock_reads ?w0) (clock_reads w1)) ps items"
    by blast
  have "persisted w w' items"
    unfolding persisted_def using only_clock_fields [OF oc] es xs
    by (auto simp: w' JSON_stringify_def)
  with xs show ?thesis by blast
qed

subsection \<open>Updating one record\<close>

lemma persisted_pre: "only_clock w w1 \<Longrightarrow> persisted w1 w' items \<Longrightarrow> persisted w w' items"
  unfolding persisted_def
  by (auto simp: only_clock_fields elim!: list_all2_mono entry_of_mono
           intro: order_trans [OF only_clock_fields(6)])

lemma persisted_post: "persisted w w1 items \<Longrightarrow> only_clock w1 w' \<Longrightarrow> persisted w w' items"
  unfolding persisted_def
  by (auto simp: only_clock_fields elim!: list_all2_mono entry_of_mono
           intro: order_trans [OF _ only_clock_fields(6)])

lemma id_is_simps:
  "id_is i None = Inl TypeError" "id_is i (Some t) = Inr (id' t = i)"
  by (simp_all add: id_is_def)

lemma id_is_not_simps:
  "id_is_not i None = Inl TypeError" "id_is_not i (Some t) = Inr (id' t \<noteq> i)"
  by (simp_all add: id_is_not_def)

lemma findIndex_absent:
  "i \<notin> set (map id' items) \<Longrightarrow> Array_findIndex (id_is i) (map Some items) = Inr (- 1)"
  by (induction items) (auto simp: id_is_simps)

lemma findIndex_first:
  "first_index items i k \<Longrightarrow> Array_findIndex (id_is i) (map Some items) = Inr (int k)"
proof (induction items arbitrary: k)
  case Nil
  then show ?case by (simp add: first_index_def)
next
  case (Cons r items)
  show ?case
  proof (cases k)
    case 0
    with Cons.prems show ?thesis by (simp add: first_index_def id_is_simps)
  next
    case (Suc j)
    with Cons.prems have "first_index items i j" and "id' r \<noteq> i"
      by (auto simp: first_index_def)
    with Cons.IH [of j] Suc show ?thesis by (simp add: id_is_simps)
  qed
qed

lemma findIndex_Inr:
  "Array_findIndex (id_is i) xs = Inr n \<Longrightarrow>
     n = - 1 \<or> (0 \<le> n \<and> n < int (length xs) \<and> (\<exists>r. xs ! nat n = Some r \<and> id' r = i))"
proof (induction xs arbitrary: n)
  case Nil
  then show ?case by simp
next
  case (Cons x xs)
  show ?case
  proof (cases x)
    case None
    with Cons.prems show ?thesis by (simp add: id_is_simps)
  next
    case (Some r)
    show ?thesis
    proof (cases "id' r = i")
      case True
      with Some Cons.prems show ?thesis by (auto simp: id_is_simps)
    next
      case False
      show ?thesis
      proof (cases "Array_findIndex (id_is i) xs")
        case (Inl e)
        with Some False Cons.prems show ?thesis by (simp add: id_is_simps)
      next
        case (Inr m)
        with Some False Cons.prems have n: "n = (if m = - 1 then - 1 else m + 1)"
          by (simp add: id_is_simps)
        from Cons.IH [OF Inr] n show ?thesis
          by (auto simp: nat_add_distrib)
      qed
    qed
  qed
qed

lemma at_index_nat: "k < length xs \<Longrightarrow> at_index xs (int k) = xs ! k"
  by (simp add: at_index_def)

lemma update_not_found:
  assumes "fetchTimerItemsFromStore w = Inr (map Some items)" "i \<notin> set (map id' items)"
  shows "updateTimerItemInStore i cb w = (Inr None, w)"
  using assms by (simp add: updateTimerItemInStore_def findIndex_absent)

lemma update_found_unfold:
  assumes "fetchTimerItemsFromStore w = Inr (map Some items)" "first_index items i k"
  shows "updateTimerItemInStore i cb w =
           (case cb (items ! k) w of
              (item1, w1) \<Rightarrow>
                (case setItems (map Some (items[k := item1])) w1 of
                   (Inl e, w2) \<Rightarrow> (Inl e, w2)
                 | (Inr u, w2) \<Rightarrow>
                     (case Array_map convert_plain (map Some (items[k := item1])) w2 of
                        (Inl e, w3) \<Rightarrow> (Inl e, w3)
                      | (Inr vws, w3) \<Rightarrow> (Inr (Some vws), w3))))"
proof -
  from assms(2) have k: "k < length items" by (simp add: first_index_def)
  show ?thesis
    using assms(1) k
    by (simp add: updateTimerItemInStore_def findIndex_first [OF assms(2)] at_index_nat
                  Let_def flip: map_update cong: prod.case_cong sum.case_cong)
qed

lemma update_found:
  assumes fetch: "fetchTimerItemsFromStore w = Inr (map Some items)"
    and first: "first_index items i k"
    and cb: "cb (items ! k) w = (r1, w1)" and oc: "only_clock w w1"
  shows "\<exists>vs w'. updateTimerItemInStore i cb w = (Inr (Some vs), w') \<and>
           persisted w w' (items[k := r1]) \<and>
           list_all2 (\<lambda>v r. view_of (clock w) (clock_reads w) (clock_reads w') v r \<and>
                            requestFocus v = None) vs (items[k := r1])"
proof -
  let ?its = "items[k := r1]"
  obtain w2 where set: "setItems (map Some ?its) w1 = (Inr (), w2)"
    using setItems_total by blast
  obtain vs w3 where conv: "Array_map convert_plain (map Some ?its) w2 = (Inr vs, w3)"
    using Array_map_total [of convert_plain ?its w2] convert_plain_total by blast
  from setItems_Inr [OF set] have p12: "persisted w1 w2 ?its"
    by (auto dest: map_inj_on [OF _ inj_on_subset [OF inj_Some subset_UNIV]])
  from convert_plain_all_Inr [OF conv] have oc23: "only_clock w2 w3"
    and vs: "list_all2 (\<lambda>v r. view_of (clock w2) (clock_reads w2) (clock_reads w3) v r \<and>
                             requestFocus v = None) vs ?its"
    by (auto dest: map_inj_on [OF _ inj_on_subset [OF inj_Some subset_UNIV]])
  have p: "persisted w w3 ?its"
    using persisted_post [OF persisted_pre [OF oc p12] oc23] .
  have c2: "clock w2 = clock w"
    using p12 oc by (simp add: persisted_def only_clock_fields)
  have "clock_reads w \<le> clock_reads w1" "clock_reads w1 \<le> clock_reads w2"
    using p12 oc by (simp_all add: persisted_def only_clock_fields)
  then have le2: "clock_reads w \<le> clock_reads w2" by (rule order_trans)
  have "list_all2 (\<lambda>v r. view_of (clock w) (clock_reads w) (clock_reads w3) v r \<and>
                         requestFocus v = None) vs ?its"
    using vs
  proof (rule list_all2_mono)
    fix v r
    assume "view_of (clock w2) (clock_reads w2) (clock_reads w3) v r \<and> requestFocus v = None"
    then show "view_of (clock w) (clock_reads w) (clock_reads w3) v r \<and> requestFocus v = None"
      using view_of_mono [OF _ le2 order_refl] c2 by auto
  qed
  moreover have "updateTimerItemInStore i cb w = (Inr (Some vs), w3)"
    by (simp add: update_found_unfold [OF fetch first] cb set conv)
  ultimately show ?thesis using p by blast
qed

lemma persisted_fetch:
  "persisted w w' items \<Longrightarrow> fetchTimerItemsFromStore w' = Inr (map Some items)"
  by (simp add: persisted_def fetchTimerItemsFromStore_def getItems_def JSON_parse_def)

lemma map_filter_Some: "List.map_filter (\<lambda>item. item) (map Some xs) = xs"
  by (induction xs) simp_all

lemma stored_records_fetch:
  "fetchTimerItemsFromStore w = Inr (map Some items) \<Longrightarrow> stored_records w = items"
  by (simp add: stored_records_def map_filter_Some)

lemma fetch_world_ab: "fetchTimerItemsFromStore world_ab = Inr (map Some [timer_a, timer_b])"
  by (simp add: world_ab_def fetchTimerItemsFromStore_def getItems_def JSON_parse_def)

subsection \<open>The verbs on a record that is found\<close>

lemma start_found:
  assumes "fetchTimerItemsFromStore w = Inr (map Some items)" and "first_index items i k"
  shows "\<exists>vs w'. start i w = (Inr (Some vs), w') \<and>
           persisted w w' (items[k := (items ! k)\<lparr>started_at := Some (clock w (clock_reads w))\<rparr>]) \<and>
           Suc (clock_reads w) \<le> clock_reads w'"
proof -
  let ?cb = "\<lambda>item w0. case new_Date w0 of (d, w1) \<Rightarrow> (item\<lparr>started_at := Some d\<rparr>, w1)"
  let ?w1 = "w\<lparr>clock_reads := Suc (clock_reads w)\<rparr>"
  let ?r = "(items ! k)\<lparr>started_at := Some (clock w (clock_reads w))\<rparr>"
  have cb: "?cb (items ! k) w = (?r, ?w1)" by (simp add: new_Date_def)
  have oc: "only_clock w ?w1" by (simp add: only_clock_def)
  have k: "k < length items" using assms(2) by (simp add: first_index_def)
  from update_found [where cb = ?cb, OF assms cb oc] obtain vs w' where
    u: "updateTimerItemInStore i ?cb w = (Inr (Some vs), w')" and p: "persisted w w' (items[k := ?r])"
    by blast
  from p obtain ps where "list_all2 (entry_of (clock w) (clock_reads w) (clock_reads w')) ps (items[k := ?r])"
    by (auto simp: persisted_def)
  then have "entry_of (clock w) (clock_reads w) (clock_reads w') (ps ! k) ?r"
    using k by (auto simp: list_all2_conv_all_nth)
  then have "Suc (clock_reads w) \<le> clock_reads w'"
    by (auto simp: entry_of_def live_total_def)
  with u p show ?thesis by (auto simp: start_def)
qed

lemma pause_found:
  assumes "fetchTimerItemsFromStore w = Inr (map Some items)" and "first_index items i k"
  shows "\<exists>vs w'. pause i w = (Inr (Some vs), w') \<and> persisted w w' (items[k := paused w (items ! k)])"
proof -
  let ?cb = "\<lambda>item w0. case elapsedSince (started_at item) w0 of
                     (e, w1) \<Rightarrow> (item\<lparr>duration := duration item + e, started_at := None\<rparr>, w1)"
  obtain e w1 where e: "elapsedSince (started_at (items ! k)) w = (e, w1)"
    by (cases "elapsedSince (started_at (items ! k)) w") 
  have oc: "only_clock w w1" using e by (rule elapsedSince_only_clock)
  have ev: "e = (case started_at (items ! k) of
             None \<Rightarrow> 0
           | Some t \<Rightarrow> (real_of_int (clock w (clock_reads w)) - real_of_int t) / 1000)"
    using e by (cases "started_at (items ! k)") (auto simp: elapsedSince_None elapsedSince_Some)
  have cb: "?cb (items ! k) w = (paused w (items ! k), w1)"
    by (simp add: e paused_def ev)
  from update_found [where cb = ?cb, OF assms cb oc] show ?thesis by (auto simp: pause_def)
qed

lemma plain_found:
  assumes "fetchTimerItemsFromStore w = Inr (map Some items)" and "first_index items i k"
  shows "\<exists>vs w'. updateTimerItemInStore i (\<lambda>item w0. (f item, w0)) w = (Inr (Some vs), w') \<and>
           persisted w w' (items[k := f (items ! k)])"
  using update_found [OF assms, of "\<lambda>item w0. (f item, w0)" "f (items ! k)" w]
  by (auto simp: only_clock_refl)

subsection \<open>Creating and deleting\<close>

lemma generateRandomID_loop_world:
  "generateRandomID_loop n res w = (i, wr) \<Longrightarrow> wr = w\<lparr>random_reads := random_reads w + n\<rparr>"
proof (induction n arbitrary: res w)
  case 0
  then show ?case by simp
next
  case (Suc n)
  let ?w1 = "w\<lparr>random_reads := Suc (random_reads w)\<rparr>"
  from Suc.prems obtain res1 where "generateRandomID_loop n res1 ?w1 = (i, wr)"
    by (auto simp: Math_random_def)
  from Suc.IH [OF this] show ?case by simp
qed

lemma generateRandomID_world:
  "generateRandomID w = (i, wr) \<Longrightarrow> wr = w\<lparr>random_reads := random_reads w + 8\<rparr>"
  unfolding generateRandomID_def by (rule generateRandomID_loop_world)

lemma map_Some_eq: "map Some xs = map Some ys \<Longrightarrow> xs = ys"
  by (simp add: inj_map_eq_map [OF inj_Some])

lemma setItems_Some: "setItems (map Some items) w = (Inr u, w') \<Longrightarrow> persisted w w' items"
  by (auto dest!: setItems_Inr map_Some_eq)

lemma convert_focus_all_Some:
  "Array_map (convert_focus i) (map Some items) w = (Inr vs, w') \<Longrightarrow>
     only_clock w w' \<and>
     list_all2 (\<lambda>v r. view_of (clock w) (clock_reads w) (clock_reads w') v r \<and>
                      requestFocus v = Some (id' r = i)) vs items"
  by (auto dest!: convert_focus_all_Inr map_Some_eq)

lemma convert_plain_all_Some:
  "Array_map convert_plain (map Some items) w = (Inr vs, w') \<Longrightarrow>
     only_clock w w' \<and>
     list_all2 (\<lambda>v r. view_of (clock w) (clock_reads w) (clock_reads w') v r \<and>
                      requestFocus v = None) vs items"
  by (auto dest!: convert_plain_all_Inr map_Some_eq)

lemma create_found:
  assumes fetch: "fetchTimerItemsFromStore w = Inr (map Some items)"
    and gen: "generateRandomID w = (i, wr)"
  shows "\<exists>vs w'. create w = (Inr vs, w') \<and>
           persisted wr w' (items @ [newTimer i (length items)]) \<and>
           list_all2 (\<lambda>v r. view_of (clock w) (clock_reads w) (clock_reads w') v r \<and>
                            requestFocus v = Some (id' r = i)) vs (items @ [newTimer i (length items)])"
proof -
  let ?its = "items @ [newTimer i (length items)]"
  have wr: "wr = w\<lparr>random_reads := random_reads w + 8\<rparr>"
    using gen by (rule generateRandomID_world)
  obtain w2 where set: "setItems (map Some ?its) wr = (Inr (), w2)"
    using setItems_total by blast
  obtain vs w3 where conv: "Array_map (convert_focus i) (map Some ?its) w2 = (Inr vs, w3)"
    using Array_map_total [of "convert_focus i" ?its w2] convert_focus_total by blast
  from setItems_Some [OF set] have p12: "persisted wr w2 ?its" .
  from convert_focus_all_Some [OF conv] have oc23: "only_clock w2 w3"
    and vs: "list_all2 (\<lambda>v r. view_of (clock w2) (clock_reads w2) (clock_reads w3) v r \<and>
                             requestFocus v = Some (id' r = i)) vs ?its"
    by simp_all
  have p: "persisted wr w3 ?its"
    using persisted_post [OF p12 oc23] .
  have c2: "clock w2 = clock w" and le2: "clock_reads w \<le> clock_reads w2"
    using p12 by (simp_all add: persisted_def wr)
  have "list_all2 (\<lambda>v r. view_of (clock w) (clock_reads w) (clock_reads w3) v r \<and>
                         requestFocus v = Some (id' r = i)) vs ?its"
    using vs
  proof (rule list_all2_mono)
    fix v r
    assume "view_of (clock w2) (clock_reads w2) (clock_reads w3) v r \<and> requestFocus v = Some (id' r = i)"
    then show "view_of (clock w) (clock_reads w) (clock_reads w3) v r \<and> requestFocus v = Some (id' r = i)"
      using view_of_mono [OF _ le2 order_refl] c2 by auto
  qed
  moreover have "create w = (Inr vs, w3)"
    using fetch gen set conv by (simp add: create_def newTimer_def Let_def)
  ultimately show ?thesis using p by blast
qed

lemma filter_id_is_not:
  "Array_filter (id_is_not i) (map Some items) = Inr (map Some (filter (\<lambda>r. id' r \<noteq> i) items))"
  by (induction items) (simp_all add: id_is_not_simps)

lemma delete_found:
  assumes fetch: "fetchTimerItemsFromStore w = Inr (map Some items)"
  shows "\<exists>vs w'. delete i w = (Inr vs, w') \<and>
           persisted w w' (filter (\<lambda>r. id' r \<noteq> i) items) \<and>
           list_all2 (\<lambda>v r. view_of (clock w) (clock_reads w) (clock_reads w') v r \<and>
                            requestFocus v = None) vs (filter (\<lambda>r. id' r \<noteq> i) items)"
proof -
  let ?its = "filter (\<lambda>r. id' r \<noteq> i) items"
  obtain w2 where set: "setItems (map Some ?its) w = (Inr (), w2)"
    using setItems_total by blast
  obtain vs w3 where conv: "Array_map convert_plain (map Some ?its) w2 = (Inr vs, w3)"
    using Array_map_total [of convert_plain ?its w2] convert_plain_total by blast
  from setItems_Some [OF set] have p12: "persisted w w2 ?its" .
  from convert_plain_all_Some [OF conv] have oc23: "only_clock w2 w3"
    and vs: "list_all2 (\<lambda>v r. view_of (clock w2) (clock_reads w2) (clock_reads w3) v r \<and>
                             requestFocus v = None) vs ?its"
    by simp_all
  have p: "persisted w w3 ?its"
    using persisted_post [OF p12 oc23] .
  have c2: "clock w2 = clock w" and le2: "clock_reads w \<le> clock_reads w2"
    using p12 by (simp_all add: persisted_def)
  have "list_all2 (\<lambda>v r. view_of (clock w) (clock_reads w) (clock_reads w3) v r \<and>
                         requestFocus v = None) vs ?its"
    using vs
  proof (rule list_all2_mono)
    fix v r
    assume "view_of (clock w2) (clock_reads w2) (clock_reads w3) v r \<and> requestFocus v = None"
    then show "view_of (clock w) (clock_reads w) (clock_reads w3) v r \<and> requestFocus v = None"
      using view_of_mono [OF _ le2 order_refl] c2 by auto
  qed
  moreover have "delete i w = (Inr vs, w3)"
    using fetch set conv by (simp add: delete_def filter_id_is_not)
  ultimately show ?thesis using p by blast
qed

lemma first_index_append_new:
  "i \<notin> set (map id' items) \<Longrightarrow> id' r = i \<Longrightarrow> first_index (items @ [r]) i (length items)"
  by (simp add: first_index_def)

subsection \<open>The example states\<close>

lemma new_id_world_ab: "fst (generateRandomID world_ab) = ''AHPXfmu2''"
  by code_simp

lemma reads_create_ab: "clock_reads (snd (create world_ab)) = 2"
  by code_simp

lemma reads_start_ab: "clock_reads (snd (start ''AHPXfmu2'' (snd (create world_ab)))) = 7"
  by code_simp

lemma first_a: "first_index [timer_a, timer_b] ''a'' 0"
  by (simp add: first_index_def timer_a_def)

lemma first_b: "first_index [timer_a, timer_b] ''b'' 1"
  by (simp add: first_index_def timer_a_def timer_b_def)

lemma clock_world_ab: "clock world_ab = (\<lambda>n. 1000 * int n)" "clock_reads world_ab = 0"
  by (simp_all add: world_ab_def empty_world_def)

subsection \<open>What a call that returns has published\<close>

lemma persisted_published:
  "persisted w1 w' items \<Longrightarrow> clock w1 = clock w \<Longrightarrow> clock_reads w \<le> clock_reads w1 \<Longrightarrow>
     published w w' items"
  unfolding persisted_def published_def
  by (auto simp: fetchTimerItemsFromStore_def getItems_def JSON_parse_def
           elim!: list_all2_mono entry_of_mono)

lemma published_post: "published w w1 items \<Longrightarrow> only_clock w1 w' \<Longrightarrow> published w w' items"
  unfolding published_def
  by (auto simp: only_clock_fields fetchTimerItemsFromStore_def getItems_def
           elim!: list_all2_mono entry_of_mono
           intro: order_trans [OF _ only_clock_fields(6)])

lemma views_widen:
  assumes "list_all2 (\<lambda>v r. view_of clk lo hi v r \<and> P v r) vs items" "lo' \<le> lo"
  shows "list_all2 (\<lambda>v r. view_of clk lo' hi v r \<and> P v r) vs items"
  using assms(1)
  by (rule list_all2_mono) (use assms(2) view_of_mono in blast)

lemma set_then_convert_plain:
  assumes set: "setItems xs w1 = (Inr u, w2)"
    and conv: "Array_map convert_plain xs w2 = (Inr vs, w3)"
    and w1: "clock w1 = clock w" "clock_reads w \<le> clock_reads w1"
  shows "\<exists>items. xs = map Some items \<and> published w w3 items \<and>
           list_all2 (\<lambda>v r. view_of (clock w) (clock_reads w) (clock_reads w3) v r \<and>
                            requestFocus v = None) vs items"
proof -
  from setItems_Inr [OF set] obtain items where
    xs: "xs = map Some items" and p: "persisted w1 w2 items" by blast
  from conv have conv': "Array_map convert_plain (map Some items) w2 = (Inr vs, w3)"
    by (simp add: xs)
  from convert_plain_all_Some [OF conv'] have oc: "only_clock w2 w3"
    and vs: "list_all2 (\<lambda>v r. view_of (clock w2) (clock_reads w2) (clock_reads w3) v r \<and>
                             requestFocus v = None) vs items"
    by simp_all
  have pub: "published w w3 items"
    using published_post [OF persisted_published [OF p w1] oc] .
  have c2: "clock w2 = clock w" using p w1 by (simp add: persisted_def)
  have "clock_reads w1 \<le> clock_reads w2" using p by (simp add: persisted_def)
  with w1 have le: "clock_reads w \<le> clock_reads w2" by simp
  from views_widen [OF vs le] c2 xs pub show ?thesis by auto
qed

lemma set_then_convert_focus:
  assumes set: "setItems xs w1 = (Inr u, w2)"
    and conv: "Array_map (convert_focus i) xs w2 = (Inr vs, w3)"
    and w1: "clock w1 = clock w" "clock_reads w \<le> clock_reads w1"
  shows "\<exists>items. xs = map Some items \<and> published w w3 items \<and>
           list_all2 (\<lambda>v r. view_of (clock w) (clock_reads w) (clock_reads w3) v r \<and>
                            requestFocus v = Some (id' r = i)) vs items"
proof -
  from setItems_Inr [OF set] obtain items where
    xs: "xs = map Some items" and p: "persisted w1 w2 items" by blast
  from conv have conv': "Array_map (convert_focus i) (map Some items) w2 = (Inr vs, w3)"
    by (simp add: xs)
  from convert_focus_all_Some [OF conv'] have oc: "only_clock w2 w3"
    and vs: "list_all2 (\<lambda>v r. view_of (clock w2) (clock_reads w2) (clock_reads w3) v r \<and>
                             requestFocus v = Some (id' r = i)) vs items"
    by simp_all
  have pub: "published w w3 items"
    using published_post [OF persisted_published [OF p w1] oc] .
  have c2: "clock w2 = clock w" using p w1 by (simp add: persisted_def)
  have "clock_reads w1 \<le> clock_reads w2" using p by (simp add: persisted_def)
  with w1 have le: "clock_reads w \<le> clock_reads w2" by simp
  from views_widen [OF vs le] c2 xs pub show ?thesis by auto
qed

lemma list_Inr:
  assumes "list w = (Inr vs, w')"
  shows "\<exists>items. published w w' items \<and>
           list_all2 (\<lambda>v r. view_of (clock w) (clock_reads w) (clock_reads w') v r \<and>
                            requestFocus v = None) vs items"
proof -
  from assms obtain xs w1 where
    f: "fetchTimerItemsFromStore w = Inr xs" and u: "updateDurations xs w = (Inr (), w1)"
    and conv: "Array_map convert_plain xs w1 = (Inr vs, w')"
    by (auto simp: list_def split: sum.splits prod.splits)
  from updateDurations_Inr [OF u] obtain items ps w0 where
    xs: "xs = map Some items" and oc: "only_clock w w0"
    and w1: "w1 = w0\<lparr>durationsStore := Map_new ps\<rparr>"
    and es: "list_all2 (entry_of (clock w) (clock_reads w) (clock_reads w0)) ps items"
    by blast
  have pub1: "published w w1 items"
    unfolding published_def using f es only_clock_fields [OF oc]
    by (auto simp: w1 xs fetchTimerItemsFromStore_def getItems_def)
  from conv have conv': "Array_map convert_plain (map Some items) w1 = (Inr vs, w')"
    by (simp add: xs)
  from convert_plain_all_Some [OF conv'] have oc2: "only_clock w1 w'"
    and vs: "list_all2 (\<lambda>v r. view_of (clock w1) (clock_reads w1) (clock_reads w') v r \<and>
                             requestFocus v = None) vs items"
    by simp_all
  have c1: "clock w1 = clock w" and le: "clock_reads w \<le> clock_reads w1"
    using pub1 by (simp_all add: published_def)
  from views_widen [OF vs le] c1 published_post [OF pub1 oc2] show ?thesis by auto
qed

lemma generateRandomID_clock:
  assumes "generateRandomID w = (i, wr)"
  shows "clock wr = clock w" "clock_reads wr = clock_reads w"
    "fetchTimerItemsFromStore wr = fetchTimerItemsFromStore w"
  using generateRandomID_world [OF assms]
  by (simp_all add: fetchTimerItemsFromStore_def getItems_def)

lemma create_Inr:
  assumes "create w = (Inr vs, w')"
  shows "\<exists>items. published w w' items \<and>
           list_all2 (\<lambda>v r. view_of (clock w) (clock_reads w) (clock_reads w') v r \<and>
                            requestFocus v = Some (id' r = fst (generateRandomID w))) vs items"
proof -
  obtain i wr where gen: "generateRandomID w = (i, wr)" by (cases "generateRandomID w")
  from assms gen obtain xs w2 where
    set: "setItems xs wr = (Inr (), w2)" and conv: "Array_map (convert_focus i) xs w2 = (Inr vs, w')"
    by (auto simp: create_def Let_def split: sum.splits prod.splits)
  from set_then_convert_focus [OF set conv, of w] generateRandomID_clock [OF gen] gen
  show ?thesis by auto
qed

lemma delete_Inr:
  assumes "delete i w = (Inr vs, w')"
  shows "\<exists>items. published w w' items \<and>
           list_all2 (\<lambda>v r. view_of (clock w) (clock_reads w) (clock_reads w') v r \<and>
                            requestFocus v = None) vs items"
proof -
  from assms obtain xs w2 where
    set: "setItems xs w = (Inr (), w2)" and conv: "Array_map convert_plain xs w2 = (Inr vs, w')"
    by (auto simp: delete_def split: sum.splits prod.splits)
  from set_then_convert_plain [OF set conv, of w] show ?thesis by auto
qed

lemma update_Inr:
  assumes u: "updateTimerItemInStore i cb w = (Inr (Some vs), w')"
    and cb: "\<And>r w0 r1 w1. cb r w0 = (r1, w1) \<Longrightarrow> only_clock w0 w1"
  shows "\<exists>items. published w w' items \<and>
           list_all2 (\<lambda>v r. view_of (clock w) (clock_reads w) (clock_reads w') v r \<and>
                            requestFocus v = None) vs items"
proof -
  from u obtain xs r r1 w1 w2 where
    c: "cb r w = (r1, w1)"
    and set: "setItems xs w1 = (Inr (), w2)" and conv: "Array_map convert_plain xs w2 = (Inr vs, w')"
    by (auto simp: updateTimerItemInStore_def Let_def split: sum.splits prod.splits if_splits option.splits)
  from cb [OF c] have "clock w1 = clock w" "clock_reads w \<le> clock_reads w1"
    by (simp_all add: only_clock_fields)
  from set_then_convert_plain [OF set conv this] show ?thesis by auto
qed

lemma sortByIds_Inr:
  assumes s: "sortByIds ids w = (Inr (), w')"
    and f: "fetchTimerItemsFromStore w = Inr xs" and len: "length ids = length xs"
  shows "\<exists>items. published w w' items"
proof -
  from s f len obtain ys where set: "setItems ys w = (Inr (), w')"
    by (auto simp: sortByIds_def split: sum.splits)
  from setItems_Inr [OF set] obtain items where "persisted w w' items" by blast
  from persisted_published [OF this refl order_refl] show ?thesis by blast
qed

lemma verb_callbacks_only_clock:
  "(case new_Date w0 of (d, w1) \<Rightarrow> (item\<lparr>started_at := Some d\<rparr>, w1)) = (r1, w1') \<Longrightarrow> only_clock w0 w1'"
  "(case elapsedSince (started_at item) w0 of
      (e, w1) \<Rightarrow> (item\<lparr>duration := duration item + e, started_at := None\<rparr>, w1)) = (r1, w1')
     \<Longrightarrow> only_clock w0 w1'"
  by (auto split: prod.splits dest: new_Date_only_clock elapsedSince_only_clock)

lemma views_weaken:
  "list_all2 (\<lambda>v r. view_of clk lo hi v r \<and> P v r) vs items \<Longrightarrow>
     list_all2 (view_of clk lo hi) vs items"
  by (erule list_all2_mono) simp

lemma views_weaken_ex:
  assumes "\<exists>items. published w w' items \<and> list_all2 (\<lambda>v r. view_of clk lo hi v r \<and> P v r) vs items"
  shows "\<exists>items. published w w' items \<and> list_all2 (view_of clk lo hi) vs items"
proof -
  from assms obtain items where p: "published w w' items"
    and l: "list_all2 (\<lambda>v r. view_of clk lo hi v r \<and> P v r) vs items"
    by blast
  from l have "list_all2 (view_of clk lo hi) vs items" by (rule views_weaken)
  with p show ?thesis by (intro exI [of _ items] conjI)
qed

lemma verb_Views:
  assumes r: "ret_views_or_null (updateTimerItemInStore i cb w) = (Inr (Views vs), w')"
    and cb: "\<And>r w0 r1 w1. cb r w0 = (r1, w1) \<Longrightarrow> only_clock w0 w1"
  shows "\<exists>items. published w w' items \<and>
           list_all2 (view_of (clock w) (clock_reads w) (clock_reads w')) vs items"
proof -
  from r have u: "updateTimerItemInStore i cb w = (Inr (Some vs), w')"
    by (auto simp: ret_views_or_null_def split: prod.splits sum.splits option.splits)
  have "\<exists>items. published w w' items \<and>
           list_all2 (\<lambda>v r. view_of (clock w) (clock_reads w) (clock_reads w') v r \<and>
                            requestFocus v = None) vs items"
    by (rule update_Inr [OF u]) (rule cb)
  then show ?thesis by (rule views_weaken_ex)
qed

lemma run_Views:
  assumes "run c w = (Inr (Views vs), w')"
  shows "\<exists>items. published w w' items \<and>
           list_all2 (view_of (clock w) (clock_reads w) (clock_reads w')) vs items"
proof (cases c)
  case List
  with assms have "list w = (Inr vs, w')"
    by (auto simp: ret_views_def split: prod.splits sum.splits)
  from list_Inr [OF this] show ?thesis by (rule views_weaken_ex)
next
  case Create
  with assms have "create w = (Inr vs, w')"
    by (auto simp: ret_views_def split: prod.splits sum.splits)
  from create_Inr [OF this] show ?thesis by (rule views_weaken_ex)
next
  case (Delete i)
  with assms have "delete i w = (Inr vs, w')"
    by (auto simp: ret_views_def split: prod.splits sum.splits)
  from delete_Inr [OF this] show ?thesis by (rule views_weaken_ex)
next
  case (Start i)
  with assms have "ret_views_or_null (updateTimerItemInStore i
      (\<lambda>item w0. case new_Date w0 of (d, w1) \<Rightarrow> (item\<lparr>started_at := Some d\<rparr>, w1)) w) =
      (Inr (Views vs), w')"
    by (simp add: start_def)
  then show ?thesis
    by (rule verb_Views) (erule verb_callbacks_only_clock)
next
  case (Pause i)
  with assms have "ret_views_or_null (updateTimerItemInStore i
      (\<lambda>item w0. case elapsedSince (started_at item) w0 of
                     (e, w1) \<Rightarrow> (item\<lparr>duration := duration item + e, started_at := None\<rparr>, w1)) w) =
      (Inr (Views vs), w')"
    by (simp add: pause_def)
  then show ?thesis
    by (rule verb_Views) (erule verb_callbacks_only_clock)
next
  case (Reset i)
  with assms have "ret_views_or_null (updateTimerItemInStore i
      (\<lambda>item w0. (item\<lparr>started_at := None, duration := 0\<rparr>, w0)) w) = (Inr (Views vs), w')"
    by (simp add: reset_def)
  then show ?thesis
    by (rule verb_Views) (simp add: only_clock_refl)
next
  case (UpdateName i n)
  with assms have "ret_views_or_null (updateTimerItemInStore i
      (\<lambda>item w0. (item\<lparr>name := n\<rparr>, w0)) w) = (Inr (Views vs), w')"
    by (simp add: updateName_def)
  then show ?thesis
    by (rule verb_Views) (simp add: only_clock_refl)
next
  case (UpdateNotes i n)
  with assms have "ret_views_or_null (updateTimerItemInStore i
      (\<lambda>item w0. (item\<lparr>notes' := n\<rparr>, w0)) w) = (Inr (Views vs), w')"
    by (simp add: updateNotes_def)
  then show ?thesis
    by (rule verb_Views) (simp add: only_clock_refl)
next
  case (UpdateDuration i d)
  with assms have "ret_views_or_null (updateTimerItemInStore i
      (\<lambda>item w0. (item\<lparr>duration := d\<rparr>, w0)) w) = (Inr (Views vs), w')"
    by (simp add: updateDuration_def)
  then show ?thesis
    by (rule verb_Views) (simp add: only_clock_refl)
next
  case (SortByIds ids)
  with assms show ?thesis
    by (auto simp: ret_undefined_def split: prod.splits sum.splits)
qed

lemma list_world_ab: "fst (run List world_ab) = Inr (Views [view_a, view_b])"
  by code_simp

subsection \<open>Absent and malformed storage\<close>

lemma generateRandomID_loop_random:
  "random v = random w \<Longrightarrow> random_reads v = random_reads w \<Longrightarrow>
     fst (generateRandomID_loop n res v) = fst (generateRandomID_loop n res w)"
proof (induction n arbitrary: res v w)
  case 0
  show ?case by simp
next
  case (Suc n)
  let ?v1 = "v\<lparr>random_reads := Suc (random_reads v)\<rparr>"
  let ?w1 = "w\<lparr>random_reads := Suc (random_reads w)\<rparr>"
  have "random ?v1 = random ?w1" "random_reads ?v1 = random_reads ?w1"
    using Suc.prems by simp_all
  from Suc.IH [OF this] Suc.prems show ?case
    by (simp add: Math_random_def)
qed

lemma generateRandomID_random:
  "random v = random w \<Longrightarrow> random_reads v = random_reads w \<Longrightarrow>
     fst (generateRandomID v) = fst (generateRandomID w)"
  unfolding generateRandomID_def by (rule generateRandomID_loop_random)

lemma fetch_Malformed:
  "localStorage w = Some Malformed \<Longrightarrow> fetchTimerItemsFromStore w = Inl SyntaxError"
  by (simp add: fetchTimerItemsFromStore_def getItems_def JSON_parse_def)

lemma run_Malformed:
  assumes "localStorage w = Some Malformed"
  shows "run c w = (Inl SyntaxError, w)"
  using fetch_Malformed [OF assms]
  by (cases c)
     (simp_all add: list_def create_def delete_def start_def pause_def reset_def updateName_def
        updateNotes_def updateDuration_def updateTimerItemInStore_def sortByIds_def
        ret_views_def ret_views_or_null_def ret_undefined_def)

text \<open>Every call on the empty collection, written out.\<close>

lemma run_empty:
  assumes "fetchTimerItemsFromStore w = Inr []"
  shows "run List w = (Inr (Views []), w\<lparr>durationsStore := []\<rparr>)"
    "run (Delete i) w = (Inr (Views []), w\<lparr>localStorage := Some (Json []), durationsStore := []\<rparr>)"
    "run (Start i) w = (Inr Null, w)" "run (Pause i) w = (Inr Null, w)"
    "run (Reset i) w = (Inr Null, w)" "run (UpdateName i n) w = (Inr Null, w)"
    "run (UpdateNotes i n) w = (Inr Null, w)" "run (UpdateDuration i d) w = (Inr Null, w)"
    "run (SortByIds ids) w =
       (Inr Undefined,
        if ids = [] then w\<lparr>localStorage := Some (Json []), durationsStore := []\<rparr> else w)"
    "\<exists>v. run Create w =
       (Inr (Views [v]),
        w\<lparr>random_reads := random_reads w + 8,
          localStorage := Some (Json [Some (newTimer (fst (generateRandomID w)) 0)]),
          durationsStore := [(fst (generateRandomID w), 0)]\<rparr>) \<and>
       v = fst (convertTimerItem (newTimer (fst (generateRandomID w)) 0) (Some True) w)"
proof -
  show "run List w = (Inr (Views []), w\<lparr>durationsStore := []\<rparr>)"
    using assms by (simp add: list_def updateDurations_def Map_new_def ret_views_def)
  show "run (Delete i) w = (Inr (Views []), w\<lparr>localStorage := Some (Json []), durationsStore := []\<rparr>)"
    using assms
    by (simp add: delete_def setItems_def updateDurations_def Map_new_def ret_views_def
          JSON_stringify_def)
  have verb: "\<And>cb. updateTimerItemInStore i cb w = (Inr None, w)"
    using assms by (simp add: updateTimerItemInStore_def)
  show "run (Start i) w = (Inr Null, w)" "run (Pause i) w = (Inr Null, w)"
    "run (Reset i) w = (Inr Null, w)" "run (UpdateName i n) w = (Inr Null, w)"
    "run (UpdateNotes i n) w = (Inr Null, w)" "run (UpdateDuration i d) w = (Inr Null, w)"
    by (simp_all add: start_def pause_def reset_def updateName_def updateNotes_def
          updateDuration_def verb ret_views_or_null_def)
  show "run (SortByIds ids) w =
       (Inr Undefined,
        if ids = [] then w\<lparr>localStorage := Some (Json []), durationsStore := []\<rparr> else w)"
    using assms
    by (simp add: sortByIds_def setItems_def updateDurations_def Map_new_def ret_undefined_def
          JSON_stringify_def)
  obtain i0 wr where gen: "generateRandomID w = (i0, wr)" by (cases "generateRandomID w")
  have wr: "wr = w\<lparr>random_reads := random_reads w + 8\<rparr>"
    using gen by (rule generateRandomID_world)
  show "\<exists>v. run Create w =
       (Inr (Views [v]),
        w\<lparr>random_reads := random_reads w + 8,
          localStorage := Some (Json [Some (newTimer (fst (generateRandomID w)) 0)]),
          durationsStore := [(fst (generateRandomID w), 0)]\<rparr>) \<and>
       v = fst (convertTimerItem (newTimer (fst (generateRandomID w)) 0) (Some True) w)"
    using assms
    by (simp add: create_def gen wr setItems_def updateDurations_def Map_new_def ret_views_def
          JSON_stringify_def duration_entry_def elapsedSince_None convert_focus_def
          convertTimerItem_def newTimer_def)
qed

lemma fetch_absent: "localStorage w = None \<Longrightarrow> fetchTimerItemsFromStore w = Inr []"
  by (simp add: fetchTimerItemsFromStore_def getItems_def)

lemma fetch_Json: "localStorage w = Some (Json xs) \<Longrightarrow> fetchTimerItemsFromStore w = Inr xs"
  by (simp add: fetchTimerItemsFromStore_def getItems_def JSON_parse_def)

lemma run_empty_same:
  assumes w: "fetchTimerItemsFromStore w = Inr []" and v: "fetchTimerItemsFromStore v = Inr []"
    and vw: "v = w\<lparr>localStorage := s\<rparr>"
  shows "(\<exists>r. fst (run c w) = Inr r) \<and> fst (run c w) = fst (run c v) \<and>
         fetchTimerItemsFromStore (snd (run c w)) = fetchTimerItemsFromStore (snd (run c v)) \<and>
         durationsStore (snd (run c w)) = durationsStore (snd (run c v))"
proof (cases c)
  case Create
  have "fst (generateRandomID v) = fst (generateRandomID w)"
    by (rule generateRandomID_random) (simp_all add: vw)
  moreover have "\<And>r rf. started_at r = None \<Longrightarrow>
      fst (convertTimerItem r rf v) = fst (convertTimerItem r rf w)"
    by (simp add: convertTimerItem_def elapsedSince_None)
  ultimately show ?thesis
    using run_empty(10) [OF w] run_empty(10) [OF v] Create
    by (auto simp: fetch_Json newTimer_def simp del: run.simps)
next
  case (SortByIds ids)
  then show ?thesis
    using w v
    by (simp add: run_empty(9) [OF w] run_empty(9) [OF v] fetch_Json del: run.simps)
       (simp add: vw)
qed (use w v in \<open>simp_all add: run_empty(1-8) [OF w] run_empty(1-8) [OF v] fetch_Json
       del: run.simps\<close>,
     simp_all add: fetchTimerItemsFromStore_def getItems_def vw)

subsection \<open>Creating a timer\<close>

lemma length_characters: "length characters = 62"
  by (simp add: characters_def)

lemma charAt_random:
  assumes "0 \<le> r" "r < 1"
  shows "\<exists>c. charAt characters \<lfloor>r * real (length characters)\<rfloor> = [c] \<and> c \<in> set characters"
proof -
  define i where "i = \<lfloor>r * real (length characters)\<rfloor>"
  have "0 \<le> r * 62" using assms by simp
  then have lo: "0 \<le> i" by (simp add: i_def length_characters)
  have "r * 62 < 62" using assms by simp
  then have hi: "i < 62" by (simp add: i_def length_characters floor_less_iff)
  from lo hi have "nat i < length characters" by (simp add: length_characters)
  then have "characters ! nat i \<in> set characters" by (rule nth_mem)
  with lo hi have "charAt characters i = [characters ! nat i] \<and> characters ! nat i \<in> set characters"
    by (simp add: charAt_def length_characters)
  then show ?thesis unfolding i_def by blast
qed

lemma generateRandomID_loop_length:
  assumes "unit_random w"
  shows "length (fst (generateRandomID_loop n res w)) = length res + n \<and>
         set (fst (generateRandomID_loop n res w)) \<subseteq> set res \<union> set characters"
  using assms
proof (induction n arbitrary: res w)
  case 0
  show ?case by simp
next
  case (Suc n)
  let ?r = "random w (random_reads w)"
  let ?w1 = "w\<lparr>random_reads := Suc (random_reads w)\<rparr>"
  from Suc.prems have "0 \<le> ?r" "?r < 1" by (simp_all add: unit_random_def)
  from charAt_random [OF this] obtain c where
    c: "charAt characters \<lfloor>?r * real (length characters)\<rfloor> = [c]" "c \<in> set characters"
    by blast
  have "unit_random ?w1" using Suc.prems by (simp add: unit_random_def)
  from Suc.IH [OF this, of "res @ [c]"] c show ?case
    by (auto simp: Math_random_def)
qed

lemma generateRandomID_length:
  "unit_random w \<Longrightarrow>
     length (fst (generateRandomID w)) = 8 \<and> set (fst (generateRandomID w)) \<subseteq> set characters"
  using generateRandomID_loop_length [of w 8 "[]"] by (simp add: generateRandomID_def)

lemma focus_fresh:
  assumes "list_all2 (\<lambda>v r. P v r \<and> requestFocus v = Some (id' r = i)) vs (items @ [r0])"
    and "i \<notin> set (map id' items)" "id' r0 = i"
  shows "map requestFocus vs = replicate (length items) (Some False) @ [Some True]"
proof -
  from assms(1) have "list_all2 (\<lambda>v r. requestFocus v = Some (id' r = i)) vs (items @ [r0])"
    by (rule list_all2_mono) simp
  then have "map requestFocus vs = map (\<lambda>r. Some (id' r = i)) (items @ [r0])"
    by (induction vs "items @ [r0]" arbitrary: items rule: list_all2_induct)
       (auto simp: Cons_eq_append_conv)
  moreover have "map (\<lambda>r. Some (id' r = i)) items = replicate (length items) (Some False)"
    using assms(2) by (induction items) auto
  ultimately show ?thesis using assms(3) by simp
qed

lemma newTimer_fields:
  "id' (newTimer i n) = i" "name (newTimer i n) = ''Timer '' @ Number_toString (n + 1)"
  "duration (newTimer i n) = 0" "started_at (newTimer i n) = None" "notes' (newTimer i n) = ''''"
  by (simp_all add: newTimer_def)

lemma create_stores:
  assumes "fetchTimerItemsFromStore w = Inr (map Some items)"
  shows "fetchTimerItemsFromStore (snd (run Create w)) =
           Inr (map Some (items @ [newTimer (fst (generateRandomID w)) (length items)]))"
proof -
  obtain i wr where gen: "generateRandomID w = (i, wr)" by (cases "generateRandomID w")
  from create_found [OF assms gen] obtain vs w' where
    "create w = (Inr vs, w')" "persisted wr w' (items @ [newTimer i (length items)])"
    by blast
  then show ?thesis using gen by (simp add: ret_views_def persisted_fetch)
qed

lemma three_names:
  assumes "fetchTimerItemsFromStore w = Inr []"
  shows "map name (stored_records (run_all [Create, Create, Create] w)) =
           [''Timer 1'', ''Timer 2'', ''Timer 3'']"
proof -
  define w1 where "w1 = snd (run Create w)"
  define w2 where "w2 = snd (run Create w1)"
  define w3 where "w3 = snd (run Create w2)"
  define r1 where "r1 = newTimer (fst (generateRandomID w)) 0"
  define r2 where "r2 = newTimer (fst (generateRandomID w1)) (Suc 0)"
  define r3 where "r3 = newTimer (fst (generateRandomID w2)) (Suc (Suc 0))"
  have f0: "fetchTimerItemsFromStore w = Inr (map Some [])" using assms by simp
  have f1: "fetchTimerItemsFromStore w1 = Inr (map Some [r1])"
    using create_stores [OF f0] by (simp add: w1_def r1_def del: run.simps)
  have f2: "fetchTimerItemsFromStore w2 = Inr (map Some [r1, r2])"
    using create_stores [OF f1] by (simp add: w2_def r2_def del: run.simps)
  have f3: "fetchTimerItemsFromStore w3 = Inr (map Some [r1, r2, r3])"
    using create_stores [OF f2] by (simp add: w3_def r3_def del: run.simps)
  have digits: "Number_toString (Suc 0) = ''1''" "Number_toString (Suc (Suc 0)) = ''2''"
    "Number_toString (Suc (Suc (Suc 0))) = ''3''"
    by code_simp+
  have "stored_records w3 = [r1, r2, r3]" using f3 by (rule stored_records_fetch)
  moreover have "run_all [Create, Create, Create] w = w3"
    by (simp add: w3_def w2_def w1_def del: run.simps)
  ultimately show ?thesis
    by (simp add: r1_def r2_def r3_def newTimer_fields digits)
qed

lemma unit_random_examples: "unit_random empty_world" "unit_random world_ab"
  by (simp_all add: unit_random_def world_ab_def empty_world_def)

lemma fetch_empty_world: "fetchTimerItemsFromStore empty_world = Inr []"
  by (simp add: empty_world_def fetch_absent)

subsection \<open>Sorting by ids\<close>

lemma at_index_Cons:
  "at_index (x # xs) 0 = x" "0 \<le> n \<Longrightarrow> at_index (x # xs) (n + 1) = at_index xs n"
  "at_index xs (- 1) = None"
  by (auto simp: at_index_def nat_add_distrib)

lemma findIndex_find:
  "\<exists>n. Array_findIndex (id_is i) (map Some items) = Inr n \<and>
       at_index (map Some items) n = find (\<lambda>r. id' r = i) items"
proof (induction items)
  case Nil
  show ?case by (simp add: at_index_Cons)
next
  case (Cons r items)
  then obtain n where n: "Array_findIndex (id_is i) (map Some items) = Inr n"
    and a: "at_index (map Some items) n = find (\<lambda>r. id' r = i) items"
    by blast
  show ?case
  proof (cases "id' r = i")
    case True
    then show ?thesis by (simp add: id_is_simps at_index_Cons)
  next
    case False
    show ?thesis
    proof (cases "n = - 1")
      case True
      with False n a show ?thesis by (simp add: id_is_simps at_index_Cons)
    next
      case neq: False
      with findIndex_Inr [OF n] have "0 \<le> n" by simp
      with False n a neq show ?thesis by (simp add: id_is_simps at_index_Cons)
    qed
  qed
qed

lemma sortedItems_of_find:
  "sortedItems_of (map Some items) ids = Inr (map (\<lambda>i. find (\<lambda>r. id' r = i) items) ids)"
proof (induction ids)
  case Nil
  show ?case by simp
next
  case (Cons i ids)
  from findIndex_find [of i items] obtain n where
    "Array_findIndex (id_is i) (map Some items) = Inr n"
    "at_index (map Some items) n = find (\<lambda>r. id' r = i) items"
    by blast
  with Cons show ?case by simp
qed

lemma find_present:
  "i \<in> set (map id' items) \<Longrightarrow> \<exists>r. find (\<lambda>r. id' r = i) items = Some r \<and> id' r = i \<and> r \<in> set items"
  by (induction items) auto

lemma finds_present:
  assumes "set ids \<subseteq> set (map id' items)"
  shows "\<exists>items'. map (\<lambda>i. find (\<lambda>r. id' r = i) items) ids = map Some items' \<and>
           map id' items' = ids \<and> set items' \<subseteq> set items \<and>
           (\<forall>k<length ids. find (\<lambda>r. id' r = ids ! k) items = Some (items' ! k))"
  using assms
proof (induction ids)
  case Nil
  show ?case by simp
next
  case (Cons i ids)
  then obtain items' where its: "map (\<lambda>i. find (\<lambda>r. id' r = i) items) ids = map Some items'"
    "map id' items' = ids" "set items' \<subseteq> set items"
    "\<forall>k<length ids. find (\<lambda>r. id' r = ids ! k) items = Some (items' ! k)"
    by auto
  from Cons.prems find_present [of i items] obtain r where
    r: "find (\<lambda>r. id' r = i) items = Some r" "id' r = i" "r \<in> set items"
    by auto
  have "\<forall>k<length (i # ids). find (\<lambda>r. id' r = (i # ids) ! k) items = Some ((r # items') ! k)"
    using its(4) r(1) by (auto simp: nth_Cons split: nat.splits)
  with its r show ?case
    by (intro exI [of _ "r # items'"]) simp
qed

lemma reorder_is_permutation:
  assumes "distinct (map f ys)" "set ys \<subseteq> set xs" "length ys = length xs"
  shows "mset ys = mset xs"
proof -
  have dy: "distinct ys" using assms(1) by (rule distinct_map [THEN iffD1, THEN conjunct1])
  have "card (set ys) = length ys" using dy by (rule distinct_card)
  moreover have "card (set ys) \<le> card (set xs)" using assms(2) by (simp add: card_mono)
  moreover have "card (set xs) \<le> length xs" by (rule card_length)
  ultimately have cx: "card (set xs) = length xs" and cy: "card (set ys) = card (set xs)"
    using assms(3) by simp_all
  have dx: "distinct xs" using cx by (rule card_distinct)
  have "set ys = set xs" using assms(2) cy by (simp add: card_subset_eq)
  with dx dy show ?thesis by (simp add: set_eq_iff_mset_eq_distinct)
qed

subsection \<open>The published map\<close>

lemma Map_new_snoc: "Map_new (ps @ [p]) = AList.update (fst p) (snd p) (Map_new ps)"
  by (simp add: Map_new_def case_prod_beta)

lemma Map_new_Nil: "Map_new [] = []"
  by (simp add: Map_new_def)

lemma Map_new_distinct: "distinct (map fst (Map_new ps))"
  by (induction ps rule: rev_induct) (simp_all add: Map_new_Nil Map_new_snoc distinct_update)

lemma Map_new_keys: "fst ` set (Map_new ps) = fst ` set ps"
  by (induction ps rule: rev_induct) (auto simp: Map_new_Nil Map_new_snoc dom_update)

lemma Map_new_length: "distinct (map fst ps) \<Longrightarrow> map fst (Map_new ps) = map fst ps"
  by (induction ps rule: rev_induct) (auto simp: Map_new_Nil Map_new_snoc update_keys)

lemma list_all2_snoc1:
  "list_all2 P (xs @ [x]) zs \<Longrightarrow> \<exists>us u. zs = us @ [u] \<and> list_all2 P xs us \<and> P x u"
  by (auto simp: list_all2_append1 list_all2_Cons1)

lemma entries_keys:
  "list_all2 (entry_of clk lo hi) ps items \<Longrightarrow> map fst ps = map id' items"
  by (induction rule: list_all2_induct) (simp_all add: entry_of_def)

lemma Map_new_entries:
  "list_all2 (entry_of clk lo hi) ps items \<Longrightarrow> map_of (Map_new ps) k = Some v \<Longrightarrow>
     \<exists>r. find (\<lambda>r. id' r = k) (rev items) = Some r \<and> live_total clk lo hi r v"
proof (induction ps arbitrary: items rule: rev_induct)
  case Nil
  then show ?case by (simp add: Map_new_Nil)
next
  case (snoc p ps)
  from list_all2_snoc1 [OF snoc.prems(1)] obtain its r where
    items: "items = its @ [r]" and rest: "list_all2 (entry_of clk lo hi) ps its"
    and e: "entry_of clk lo hi p r"
    by blast
  show ?case
  proof (cases "id' r = k")
    case True
    with snoc.prems(2) e have "v = snd p"
      by (simp add: Map_new_snoc update_conv' entry_of_def)
    with e True items show ?thesis by (simp add: entry_of_def)
  next
    case False
    with snoc.prems(2) e have "map_of (Map_new ps) k = Some v"
      by (simp add: Map_new_snoc update_conv' entry_of_def)
    from snoc.IH [OF rest this] False items show ?thesis by simp
  qed
qed

lemma find_SomeD: "find P xs = Some x \<Longrightarrow> x \<in> set xs \<and> P x"
  by (induction xs) (auto split: if_splits)

lemma published_map:
  assumes "published w w' items"
  shows "fetchTimerItemsFromStore w' = Inr (map Some items) \<and>
         distinct (map fst (durationsStore w')) \<and>
         fst ` set (durationsStore w') = id' ` set items \<and>
         (\<forall>k v. map_of (durationsStore w') k = Some v \<longrightarrow>
            (\<exists>r. find (\<lambda>r. id' r = k) (rev items) = Some r \<and>
                 live_total (clock w) (clock_reads w) (clock_reads w') r v)) \<and>
         (distinct (map id' items) \<longrightarrow>
            length (durationsStore w') = length items \<and>
            (\<forall>r\<in>set items. \<exists>v. map_of (durationsStore w') (id' r) = Some v \<and>
               live_total (clock w) (clock_reads w) (clock_reads w') r v))"
proof -
  from assms obtain ps where f: "fetchTimerItemsFromStore w' = Inr (map Some items)"
    and d: "durationsStore w' = Map_new ps"
    and es: "list_all2 (entry_of (clock w) (clock_reads w) (clock_reads w')) ps items"
    by (auto simp: published_def)
  have keys: "map fst ps = map id' items" using es by (rule entries_keys)
  have "set (map fst ps) = set (map id' items)" using keys by simp
  then have dom: "fst ` set (durationsStore w') = id' ` set items"
    by (simp add: d Map_new_keys)
  have ent: "\<forall>k v. map_of (durationsStore w') k = Some v \<longrightarrow>
            (\<exists>r. find (\<lambda>r. id' r = k) (rev items) = Some r \<and>
                 live_total (clock w) (clock_reads w) (clock_reads w') r v)"
    using Map_new_entries [OF es] by (simp add: d)
  have "length (durationsStore w') = length items \<and>
            (\<forall>r\<in>set items. \<exists>v. map_of (durationsStore w') (id' r) = Some v \<and>
               live_total (clock w) (clock_reads w) (clock_reads w') r v)"
    if dist: "distinct (map id' items)"
  proof
    have "map fst (Map_new ps) = map fst ps" using dist keys by (simp add: Map_new_length)
    then have "length (Map_new ps) = length ps" by (metis length_map)
    then show "length (durationsStore w') = length items"
      using keys d by (metis length_map)
    show "\<forall>r\<in>set items. \<exists>v. map_of (durationsStore w') (id' r) = Some v \<and>
               live_total (clock w) (clock_reads w) (clock_reads w') r v"
    proof
      fix r assume r: "r \<in> set items"
      then have "id' r \<in> fst ` set (durationsStore w')" using dom by simp
      then obtain v where v: "map_of (durationsStore w') (id' r) = Some v"
        by (metis domD dom_map_of_conv_image_fst)
      with ent obtain r' where r': "find (\<lambda>x. id' x = id' r) (rev items) = Some r'"
        and lt: "live_total (clock w) (clock_reads w) (clock_reads w') r' v"
        by blast
      from find_SomeD [OF r'] have "r' \<in> set items" "id' r' = id' r"
        by simp_all
      with r dist have "r' = r"
        by (meson distinct_map inj_on_def)
      with v lt show "\<exists>v. map_of (durationsStore w') (id' r) = Some v \<and>
               live_total (clock w) (clock_reads w) (clock_reads w') r v"
        by blast
    qed
  qed
  with f dom ent show ?thesis by (simp add: d Map_new_distinct)
qed

lemma run_returns_views:
  assumes "run c w = (Inr res, w')" "res \<noteq> Null" "\<And>ids. c \<noteq> SortByIds ids"
  shows "\<exists>vs. res = Views vs"
  using assms
  by (cases c)
     (auto simp: ret_views_def ret_views_or_null_def split: prod.splits sum.splits option.splits)

lemma run_publishes:
  assumes r: "run c w = (Inr res, w')" and p: "publishes c w res"
  shows "\<exists>items. published w w' items"
proof (cases "\<exists>ids. c = SortByIds ids")
  case True
  then obtain ids where c: "c = SortByIds ids" by blast
  with p obtain xs where f: "fetchTimerItemsFromStore w = Inr xs" and len: "length ids = length xs"
    by (auto simp: publishes_def split: sum.splits)
  from r c have "sortByIds ids w = (Inr (), w')"
    by (auto simp: ret_undefined_def split: prod.splits sum.splits)
  from sortByIds_Inr [OF this f len] show ?thesis .
next
  case False
  with p run_returns_views [OF r] obtain vs where "res = Views vs"
    by (auto simp: publishes_def)
  with r run_Views show ?thesis by blast
qed

lemma list_world_ab_map: "durationsStore (snd (run List world_ab)) = [(''a'', 15), (''b'', 3)]"
  by code_simp

subsection \<open>What a call leaves in the storage\<close>

lemma Array_map_storage:
  assumes "\<And>x w. localStorage (snd (f x w)) = localStorage w"
  shows "localStorage (snd (Array_map f xs w)) = localStorage w"
proof (induction xs arbitrary: w)
  case Nil
  show ?case by simp
next
  case (Cons x xs)
  obtain r w1 where fx: "f x w = (r, w1)" by (cases "f x w")
  with assms [of x w] have s1: "localStorage w1 = localStorage w" by simp
  show ?case
  proof (cases r)
    case (Inl e)
    with fx s1 show ?thesis by simp
  next
    case (Inr y)
    obtain r2 w2 where m: "Array_map f xs w1 = (r2, w2)" by (cases "Array_map f xs w1")
    with Cons.IH [of w1] s1 have "localStorage w2 = localStorage w" by simp
    with fx Inr m show ?thesis by (cases r2) simp_all
  qed
qed

lemma elapsedSince_storage: "localStorage (snd (elapsedSince d w)) = localStorage w"
  by (cases d) (simp_all add: elapsedSince_None elapsedSince_Some)

lemma duration_entry_storage: "localStorage (snd (duration_entry x w)) = localStorage w"
  using elapsedSince_storage [of "started_at (the x)" w]
  by (cases x) (auto simp: duration_entry_def split: prod.splits)

lemma convertTimerItem_storage: "localStorage (snd (convertTimerItem r rf w)) = localStorage w"
  using elapsedSince_storage [of "started_at r" w]
  by (auto simp: convertTimerItem_def split: prod.splits)

lemma convert_plain_storage: "localStorage (snd (convert_plain x w)) = localStorage w"
  using convertTimerItem_storage [of "the x" None w]
  by (cases x) (auto simp: convert_plain_def split: prod.splits)

lemma convert_focus_storage: "localStorage (snd (convert_focus i x w)) = localStorage w"
  using convertTimerItem_storage [of "the x" "Some (id' (the x) = i)" w]
  by (cases x) (auto simp: convert_focus_def split: prod.splits)

lemma updateDurations_storage: "localStorage (snd (updateDurations xs w)) = localStorage w"
  using Array_map_storage [of duration_entry xs w, OF duration_entry_storage]
  by (auto simp: updateDurations_def split: prod.splits sum.splits)

lemma setItems_storage: "localStorage (snd (setItems xs w)) = Some (Json xs)"
  by (simp add: setItems_def updateDurations_storage JSON_stringify_def)

lemma set_then_convert_storage:
  assumes "\<And>x w. localStorage (snd (f x w)) = localStorage w"
  shows "localStorage (snd (case setItems xs w of
                              (Inl e, w2) \<Rightarrow> (Inl e, w2)
                            | (Inr u, w2) \<Rightarrow> Array_map f xs w2)) = Some (Json xs)"
proof -
  obtain r w2 where s: "setItems xs w = (r, w2)" by (cases "setItems xs w")
  with setItems_storage [of xs w] have "localStorage w2 = Some (Json xs)" by simp
  with s Array_map_storage [of f xs w2, OF assms] show ?thesis by (cases r) simp_all
qed

lemma list_storage: "localStorage (snd (list w)) = localStorage w"
proof (cases "fetchTimerItemsFromStore w")
  case (Inl e)
  then show ?thesis by (simp add: list_def)
next
  case (Inr xs)
  obtain r w1 where u: "updateDurations xs w = (r, w1)" by (cases "updateDurations xs w")
  with updateDurations_storage [of xs w] have "localStorage w1 = localStorage w" by simp
  with Inr u Array_map_storage [of convert_plain xs w1, OF convert_plain_storage]
  show ?thesis by (cases r) (simp_all add: list_def)
qed

lemma create_storage:
  "localStorage (snd (create w)) =
     (case fetchTimerItemsFromStore w of
        Inl e \<Rightarrow> localStorage w
      | Inr xs \<Rightarrow> Some (Json (xs @ [Some (newTimer (fst (generateRandomID w)) (length xs))])))"
proof (cases "fetchTimerItemsFromStore w")
  case (Inl e)
  then show ?thesis by (simp add: create_def)
next
  case (Inr xs)
  obtain i wr where gen: "generateRandomID w = (i, wr)" by (cases "generateRandomID w")
  show ?thesis
    using set_then_convert_storage [of "convert_focus i" "xs @ [Some (newTimer i (length xs))]" wr,
        OF convert_focus_storage]
    by (simp add: create_def Inr gen Let_def newTimer_def cong: prod.case_cong sum.case_cong)
qed

lemma delete_storage:
  "localStorage (snd (delete i w)) =
     (case fetchTimerItemsFromStore w of
        Inl e \<Rightarrow> localStorage w
      | Inr xs \<Rightarrow>
          (case Array_filter (id_is_not i) xs of
             Inl e \<Rightarrow> localStorage w
           | Inr ys \<Rightarrow> Some (Json ys)))"
proof (cases "fetchTimerItemsFromStore w")
  case (Inl e)
  then show ?thesis by (simp add: delete_def)
next
  case (Inr xs)
  show ?thesis
  proof (cases "Array_filter (id_is_not i) xs")
    case (Inl e)
    with Inr show ?thesis by (simp add: delete_def)
  next
    case ys: (Inr ys)
    show ?thesis
      using set_then_convert_storage [of convert_plain ys w, OF convert_plain_storage]
      by (simp add: delete_def Inr ys)
  qed
qed

lemma sortByIds_storage:
  "localStorage (snd (sortByIds ids w)) =
     (case fetchTimerItemsFromStore w of
        Inl e \<Rightarrow> localStorage w
      | Inr xs \<Rightarrow>
          if length ids \<noteq> length xs then localStorage w
          else (case sortedItems_of xs ids of
                  Inl e \<Rightarrow> localStorage w
                | Inr ys \<Rightarrow> Some (Json ys)))"
  by (simp add: sortByIds_def setItems_storage split: sum.splits)

lemma snd_wrap:
  "snd (case r of (Inl e, w) \<Rightarrow> (Inl e, w) | (Inr v, w) \<Rightarrow> (Inr (g v), w)) = snd r"
  by (auto split: prod.splits sum.splits)

lemma update_storage:
  assumes cb: "\<And>r w. localStorage (snd (cb r w)) = localStorage w"
  shows "localStorage (snd (updateTimerItemInStore i cb w)) = localStorage w \<or>
         (\<exists>xs n item. fetchTimerItemsFromStore w = Inr xs \<and> n < length xs \<and> xs ! n = Some item \<and>
            localStorage (snd (updateTimerItemInStore i cb w)) =
              Some (Json (xs[n := Some (fst (cb item w))])))"
proof (cases "fetchTimerItemsFromStore w")
  case (Inl e)
  then show ?thesis by (simp add: updateTimerItemInStore_def)
next
  case (Inr xs)
  show ?thesis
  proof (cases "Array_findIndex (id_is i) xs")
    case (Inl e)
    with Inr show ?thesis by (simp add: updateTimerItemInStore_def)
  next
    case n: (Inr n)
    show ?thesis
    proof (cases "n = - 1")
      case True
      with Inr n show ?thesis by (simp add: updateTimerItemInStore_def)
    next
      case False
      with findIndex_Inr [OF n] obtain item where
        n0: "0 \<le> n" "n < int (length xs)" and item: "xs ! nat n = Some item"
        by auto
      obtain item1 w1 where c: "cb item w = (item1, w1)" by (cases "cb item w")
      have at: "at_index xs n = Some item" using n0 item by (simp add: at_index_def)
      let ?X = "xs[nat n := Some item1]"
      obtain r w2 where set: "setItems ?X w1 = (r, w2)" by (cases "setItems ?X w1")
      with setItems_storage [of ?X w1] have s2: "localStorage w2 = Some (Json ?X)" by simp
      have "localStorage (snd (updateTimerItemInStore i cb w)) = Some (Json ?X)"
      proof (cases r)
        case (Inl e)
        with set s2 show ?thesis
          by (simp add: updateTimerItemInStore_def Inr n False at c Let_def)
      next
        case u: (Inr u)
        have "snd (updateTimerItemInStore i cb w) = snd (Array_map convert_plain ?X w2)"
          using set u
          by (simp add: updateTimerItemInStore_def Inr n False at c Let_def snd_wrap)
        with s2 Array_map_storage [of convert_plain ?X w2, OF convert_plain_storage]
        show ?thesis by simp
      qed
      moreover have "nat n < length xs" using n0 by simp
      ultimately show ?thesis using Inr item c by (intro disjI2 exI [of _ xs] exI [of _ "nat n"] exI [of _ item]) simp
    qed
  qed
qed

subsection \<open>The stored ids\<close>

lemma ids_of_simps:
  "ids_of [] = []" "ids_of (None # xs) = ids_of xs" "ids_of (Some r # xs) = id' r # ids_of xs"
  by (simp_all add: ids_of_def map_filter_simps)

lemma ids_of_append: "ids_of (xs @ ys) = ids_of xs @ ids_of ys"
proof (induction xs)
  case Nil
  show ?case by (simp add: ids_of_simps)
next
  case (Cons x xs)
  then show ?case by (cases x) (simp_all add: ids_of_simps)
qed

lemma stored_ids_Inr: "fetchTimerItemsFromStore w = Inr xs \<Longrightarrow> stored_ids w = ids_of xs"
  by (simp add: stored_ids_def stored_records_def ids_of_def)

lemma stored_ids_Json: "localStorage w = Some (Json xs) \<Longrightarrow> stored_ids w = ids_of xs"
  by (simp add: stored_ids_Inr fetch_Json)

lemma stored_ids_same: "localStorage w' = localStorage w \<Longrightarrow> stored_ids w' = stored_ids w"
  by (simp add: stored_ids_def stored_records_def fetchTimerItemsFromStore_def getItems_def)

lemma ids_of_filter:
  "Array_filter (id_is_not i) xs = Inr ys \<Longrightarrow> ids_of ys = filter (\<lambda>j. j \<noteq> i) (ids_of xs)"
proof (induction xs arbitrary: ys)
  case Nil
  then show ?case by (simp add: ids_of_simps)
next
  case (Cons x xs)
  show ?case
  proof (cases x)
    case None
    with Cons.prems show ?thesis by (simp add: id_is_not_simps)
  next
    case (Some r)
    with Cons.prems obtain zs where
      zs: "Array_filter (id_is_not i) xs = Inr zs" and ys: "ys = (if id' r \<noteq> i then x # zs else zs)"
      by (auto simp: id_is_not_simps split: sum.splits)
    from Cons.IH [OF zs] ys Some show ?thesis by (simp add: ids_of_simps)
  qed
qed

lemma ids_of_update:
  "n < length xs \<Longrightarrow> xs ! n = Some item \<Longrightarrow> id' item1 = id' item \<Longrightarrow>
     ids_of (xs[n := Some item1]) = ids_of xs"
proof (induction xs arbitrary: n)
  case Nil
  then show ?case by simp
next
  case (Cons x xs)
  show ?case
  proof (cases n)
    case 0
    with Cons.prems show ?thesis by (simp add: ids_of_simps)
  next
    case (Suc m)
    with Cons.prems Cons.IH [of m] show ?thesis
      by (cases x) (simp_all add: ids_of_simps)
  qed
qed

lemma ids_of_sorted:
  "sortedItems_of xs ids = Inr ys \<Longrightarrow>
     set (ids_of ys) \<subseteq> set ids \<and> (distinct ids \<longrightarrow> distinct (ids_of ys))"
proof (induction ids arbitrary: ys)
  case Nil
  then show ?case by (simp add: ids_of_simps)
next
  case (Cons i ids)
  from Cons.prems obtain n rest where
    n: "Array_findIndex (id_is i) xs = Inr n" and rest: "sortedItems_of xs ids = Inr rest"
    and ys: "ys = at_index xs n # rest"
    by (auto split: sum.splits)
  from Cons.IH [OF rest] have sub: "set (ids_of rest) \<subseteq> set ids"
    and dist: "distinct ids \<longrightarrow> distinct (ids_of rest)"
    by simp_all
  from findIndex_Inr [OF n] have "at_index xs n = None \<or> (\<exists>r. at_index xs n = Some r \<and> id' r = i)"
    by (auto simp: at_index_def)
  then show ?case
  proof
    assume "at_index xs n = None"
    with ys sub dist show ?thesis by (auto simp: ids_of_simps)
  next
    assume "\<exists>r. at_index xs n = Some r \<and> id' r = i"
    then obtain r where "at_index xs n = Some r" "id' r = i" by blast
    with ys sub dist show ?thesis by (auto simp: ids_of_simps)
  qed
qed

lemma snd_ret:
  "snd (ret_views r) = snd r" "snd (ret_views_or_null q) = snd q" "snd (ret_undefined u) = snd u"
  by (auto simp: ret_views_def ret_views_or_null_def ret_undefined_def
           split: prod.splits sum.splits option.splits)

lemma verb_keeps_ids:
  assumes cb: "\<And>r w. localStorage (snd (cb r w)) = localStorage w"
    and ids: "\<And>r w. id' (fst (cb r w)) = id' r"
  shows "stored_ids (snd (updateTimerItemInStore i cb w)) = stored_ids w"
proof -
  from update_storage [of cb i w, OF cb]
  show ?thesis
  proof
    assume "localStorage (snd (updateTimerItemInStore i cb w)) = localStorage w"
    then show ?thesis by (rule stored_ids_same)
  next
    assume "\<exists>xs n item. fetchTimerItemsFromStore w = Inr xs \<and> n < length xs \<and> xs ! n = Some item \<and>
            localStorage (snd (updateTimerItemInStore i cb w)) =
              Some (Json (xs[n := Some (fst (cb item w))]))"
    then obtain xs n item where f: "fetchTimerItemsFromStore w = Inr xs"
      and n: "n < length xs" "xs ! n = Some item"
      and s: "localStorage (snd (updateTimerItemInStore i cb w)) =
              Some (Json (xs[n := Some (fst (cb item w))]))"
      by blast
    have "stored_ids (snd (updateTimerItemInStore i cb w)) = ids_of (xs[n := Some (fst (cb item w))])"
      using s by (rule stored_ids_Json)
    also have "\<dots> = ids_of xs" using n ids by (rule ids_of_update)
    also have "\<dots> = stored_ids w" using f by (simp add: stored_ids_Inr)
    finally show ?thesis .
  qed
qed

lemma run_keeps_distinct:
  assumes d: "distinct (stored_ids w)" and g: "guarded [c] w"
  shows "distinct (stored_ids (snd (run c w)))"
proof (cases c)
  case List
  then show ?thesis using d by (simp add: snd_ret stored_ids_same [OF list_storage])
next
  case Create
  show ?thesis
  proof (cases "fetchTimerItemsFromStore w")
    case (Inl e)
    with create_storage [of w] have "localStorage (snd (create w)) = localStorage w" by simp
    from stored_ids_same [OF this] show ?thesis using d Create by (simp add: snd_ret)
  next
    case (Inr xs)
    let ?i = "fst (generateRandomID w)"
    from create_storage [of w] Inr
    have "stored_ids (snd (create w)) = ids_of (xs @ [Some (newTimer ?i (length xs))])"
      by (simp add: stored_ids_Json)
    also have "\<dots> = stored_ids w @ [?i]"
      by (simp add: ids_of_append ids_of_simps newTimer_fields stored_ids_Inr [OF Inr])
    finally show ?thesis using d g Create by (simp add: snd_ret)
  qed
next
  case (Delete i)
  show ?thesis
  proof (cases "fetchTimerItemsFromStore w")
    case (Inl e)
    with delete_storage [of i w] have "localStorage (snd (delete i w)) = localStorage w" by simp
    from stored_ids_same [OF this] show ?thesis using d Delete by (simp add: snd_ret)
  next
    case (Inr xs)
    show ?thesis
    proof (cases "Array_filter (id_is_not i) xs")
      case (Inl e)
      with Inr delete_storage [of i w] have "localStorage (snd (delete i w)) = localStorage w"
        by simp
      from stored_ids_same [OF this] show ?thesis using d Delete by (simp add: snd_ret)
    next
      case ys: (Inr ys)
      with Inr delete_storage [of i w] have "stored_ids (snd (delete i w)) = ids_of ys"
        by (simp add: stored_ids_Json)
      with ids_of_filter [OF ys] d show ?thesis
        using Delete by (simp add: snd_ret stored_ids_Inr [OF Inr])
    qed
  qed
next
  case (Start i)
  have "stored_ids (snd (start i w)) = stored_ids w"
    unfolding start_def
    by (rule verb_keeps_ids) (simp_all add: new_Date_def split: prod.splits)
  then show ?thesis using d Start by (simp add: snd_ret)
next
  case (Pause i)
  have "stored_ids (snd (pause i w)) = stored_ids w"
    unfolding pause_def
  proof (rule verb_keeps_ids)
    fix r w0
    show "localStorage (snd (case elapsedSince (started_at r) w0 of
            (e, w1) \<Rightarrow> (r\<lparr>duration := duration r + e, started_at := None\<rparr>, w1))) = localStorage w0"
      using elapsedSince_storage [of "started_at r" w0] by (auto split: prod.splits)
    show "id' (fst (case elapsedSince (started_at r) w0 of
            (e, w1) \<Rightarrow> (r\<lparr>duration := duration r + e, started_at := None\<rparr>, w1))) = id' r"
      by (simp split: prod.splits)
  qed
  then show ?thesis using d Pause by (simp add: snd_ret)
next
  case (Reset i)
  have "stored_ids (snd (reset i w)) = stored_ids w"
    unfolding reset_def by (rule verb_keeps_ids) simp_all
  then show ?thesis using d Reset by (simp add: snd_ret)
next
  case (UpdateName i n)
  have "stored_ids (snd (updateName i n w)) = stored_ids w"
    unfolding updateName_def by (rule verb_keeps_ids) simp_all
  then show ?thesis using d UpdateName by (simp add: snd_ret)
next
  case (UpdateNotes i n)
  have "stored_ids (snd (updateNotes i n w)) = stored_ids w"
    unfolding updateNotes_def by (rule verb_keeps_ids) simp_all
  then show ?thesis using d UpdateNotes by (simp add: snd_ret)
next
  case (UpdateDuration i n)
  have "stored_ids (snd (updateDuration i n w)) = stored_ids w"
    unfolding updateDuration_def by (rule verb_keeps_ids) simp_all
  then show ?thesis using d UpdateDuration by (simp add: snd_ret)
next
  case (SortByIds ids)
  with g have di: "distinct ids" by simp
  show ?thesis
  proof (cases "\<exists>xs ys. fetchTimerItemsFromStore w = Inr xs \<and> length ids = length xs \<and>
                  sortedItems_of xs ids = Inr ys")
    case True
    then obtain xs ys where f: "fetchTimerItemsFromStore w = Inr xs" and l: "length ids = length xs"
      and ys: "sortedItems_of xs ids = Inr ys"
      by blast
    with sortByIds_storage [of ids w] have "stored_ids (snd (sortByIds ids w)) = ids_of ys"
      by (simp add: stored_ids_Json)
    with ids_of_sorted [OF ys] di show ?thesis using SortByIds by (simp add: snd_ret)
  next
    case False
    with sortByIds_storage [of ids w] have "localStorage (snd (sortByIds ids w)) = localStorage w"
      by (auto split: sum.splits)
    from stored_ids_same [OF this] show ?thesis using d SortByIds by (simp add: snd_ret)
  qed
qed

lemma guarded_Cons: "guarded (c # cs) w \<Longrightarrow> guarded [c] w \<and> guarded cs (snd (run c w))"
  by (cases c) simp_all

lemma run_all_keeps_distinct:
  "distinct (stored_ids w) \<Longrightarrow> guarded cs w \<Longrightarrow> distinct (stored_ids (run_all cs w))"
proof (induction cs arbitrary: w)
  case Nil
  then show ?case by simp
next
  case (Cons c cs)
  from guarded_Cons [OF Cons.prems(2)] have "guarded [c] w" "guarded cs (snd (run c w))"
    by simp_all
  with Cons.IH [of "snd (run c w)"] run_keeps_distinct [OF Cons.prems(1)]
  show ?case by (simp del: run.simps)
qed

lemma fetch_fresh_world: "fetchTimerItemsFromStore fresh_world = Inr []"
  by (simp add: fresh_world_def empty_world_def fetch_absent)

lemma guarded_example: "guarded example_calls fresh_world"
  by code_simp

lemma ids_example: "stored_ids (run_all example_calls fresh_world) = [''ACEGIKMO'', ''gikmoqsu'']"
  by code_simp

section \<open>The claims\<close>

subsection \<open>C1: pause\<close>

text \<open>
  Claim C1 says that \<open>pause(id)\<close> adds the elapsed time to the duration of the record
  and clears \<open>started_at\<close>, and that consequently \<open>create()\<close>, \<open>start(id)\<close>, a wait and
  \<open>pause(id)\<close> leave the stored duration at the time waited. The first holds. The
  second holds when the new id is new indeed: \<open>start(id)\<close> and \<open>pause(id)\<close> act on the
  first record with the id, which is an older one when \<open>create()\<close> has drawn an id that
  a stored record already has.

  Claim C1, amended. For every stored collection that contains a record with the given
  id, \<open>pause(id)\<close> adds to the duration of that record (the first one with the id) the
  seconds from its \<open>started_at\<close> to the clock reading that \<open>pause\<close> takes, or 0 when
  \<open>started_at\<close> is \<open>null\<close>, and sets \<open>started_at\<close> to \<open>null\<close>; pausing a paused timer
  leaves the stored collection as it was. Consequently, when \<open>create()\<close> draws an id
  that no stored record has, \<open>create()\<close>, \<open>start(id)\<close>, \<open>pause(id)\<close> leave the new record
  with \<open>started_at = null\<close> and, as duration, the seconds between the clock reading
  taken by \<open>start\<close> and the one taken by \<open>pause\<close>: the time waited between the two.
\<close>

theorem pause_folds_elapsed_time:
  "(fetchTimerItemsFromStore w = Inr (map Some items) \<and> first_index items i k \<longrightarrow>
      (\<exists>vs w'. pause i w = (Inr (Some vs), w') \<and>
         fetchTimerItemsFromStore w' =
           Inr (map Some (items[k := (items ! k)
             \<lparr>duration := duration (items ! k) +
                 (case started_at (items ! k) of
                    None \<Rightarrow> 0
                  | Some t \<Rightarrow> (real_of_int (clock w (clock_reads w)) - real_of_int t) / 1000),
              started_at := None\<rparr>])) \<and>
         (started_at (items ! k) = None \<longrightarrow> fetchTimerItemsFromStore w' = Inr (map Some items)))) \<and>
   (fetchTimerItemsFromStore w = Inr (map Some items) \<and>
    fst (generateRandomID w) \<notin> set (map id' items) \<longrightarrow>
      (let new = fst (generateRandomID w);
           w1 = snd (create w);
           w2 = snd (start new w1);
           w3 = snd (pause new w2)
       in stored_records w2 =
            items @ [\<lparr>id' = new, name = ''Timer '' @ Number_toString (length items + 1),
                      duration = 0, started_at = Some (clock w (clock_reads w1)), notes' = ''''\<rparr>] \<and>
          stored_records w3 =
            items @ [\<lparr>id' = new, name = ''Timer '' @ Number_toString (length items + 1),
                      duration = (real_of_int (clock w (clock_reads w2)) -
                                  real_of_int (clock w (clock_reads w1))) / 1000,
                      started_at = None, notes' = ''''\<rparr>]))"
proof (intro conjI impI; (elim conjE)?)
  assume fetch: "fetchTimerItemsFromStore w = Inr (map Some items)" and first: "first_index items i k"
  have k: "k < length items" using first by (simp add: first_index_def)
  from pause_found [OF fetch first] obtain vs w' where
    p: "pause i w = (Inr (Some vs), w')" and f: "fetchTimerItemsFromStore w' = Inr (map Some (items[k := paused w (items ! k)]))"
    using persisted_fetch by blast
  have "started_at (items ! k) = None \<Longrightarrow> paused w (items ! k) = items ! k"
    by (simp add: paused_def)
  then have "started_at (items ! k) = None \<Longrightarrow> items[k := paused w (items ! k)] = items"
    by simp
  with p f show "\<exists>vs w'. pause i w = (Inr (Some vs), w') \<and>
         fetchTimerItemsFromStore w' =
           Inr (map Some (items[k := (items ! k)
             \<lparr>duration := duration (items ! k) +
                 (case started_at (items ! k) of
                    None \<Rightarrow> 0
                  | Some t \<Rightarrow> (real_of_int (clock w (clock_reads w)) - real_of_int t) / 1000),
              started_at := None\<rparr>])) \<and>
         (started_at (items ! k) = None \<longrightarrow> fetchTimerItemsFromStore w' = Inr (map Some items))"
    by (auto simp: paused_def)
next
  assume fetch: "fetchTimerItemsFromStore w = Inr (map Some items)"
    and fresh: "fst (generateRandomID w) \<notin> set (map id' items)"
  define new where "new = fst (generateRandomID w)"
  define wr where "wr = snd (generateRandomID w)"
  define n where "n = length items"
  define r0 where "r0 = newTimer new n"
  have gen: "generateRandomID w = (new, wr)" by (simp add: new_def wr_def)
  from create_found [OF fetch gen] obtain vs1 w1 where
    c: "create w = (Inr vs1, w1)" and p1: "persisted wr w1 (items @ [r0])"
    unfolding r0_def n_def by blast
  have f1: "fetchTimerItemsFromStore w1 = Inr (map Some (items @ [r0]))"
    using p1 by (rule persisted_fetch)
  have clk1: "clock w1 = clock w"
    using p1 generateRandomID_world [OF gen] by (simp add: persisted_def)
  have id0: "id' r0 = new" by (simp add: r0_def newTimer_def)
  have i1: "first_index (items @ [r0]) new n"
    unfolding n_def using fresh id0 by (intro first_index_append_new) (simp_all add: new_def)
  define r1 where "r1 = r0\<lparr>started_at := Some (clock w (clock_reads w1))\<rparr>"
  from start_found [OF f1 i1] obtain vs2 w2 where
    s: "start new w1 = (Inr (Some vs2), w2)" and p2: "persisted w1 w2 (items @ [r1])"
    by (auto simp: n_def r1_def clk1)
  have f2: "fetchTimerItemsFromStore w2 = Inr (map Some (items @ [r1]))"
    using p2 by (rule persisted_fetch)
  have clk2: "clock w2 = clock w"
    using p2 clk1 by (simp add: persisted_def)
  have i2: "first_index (items @ [r1]) new n"
    unfolding n_def using fresh by (intro first_index_append_new) (simp_all add: new_def r1_def id0)
  from pause_found [OF f2 i2] obtain vs3 w3 where
    pa: "pause new w2 = (Inr (Some vs3), w3)" and p3: "persisted w2 w3 (items @ [paused w2 r1])"
    by (auto simp: n_def)
  have f3: "fetchTimerItemsFromStore w3 = Inr (map Some (items @ [paused w2 r1]))"
    using p3 by (rule persisted_fetch)
  have "stored_records w2 = items @ [r1]" "stored_records w3 = items @ [paused w2 r1]"
    using f2 f3 by (simp_all add: stored_records_fetch)
  then show "let new = fst (generateRandomID w);
           w1 = snd (create w);
           w2 = snd (start new w1);
           w3 = snd (pause new w2)
       in stored_records w2 =
            items @ [\<lparr>id' = new, name = ''Timer '' @ Number_toString (length items + 1),
                      duration = 0, started_at = Some (clock w (clock_reads w1)), notes' = ''''\<rparr>] \<and>
          stored_records w3 =
            items @ [\<lparr>id' = new, name = ''Timer '' @ Number_toString (length items + 1),
                      duration = (real_of_int (clock w (clock_reads w2)) -
                                  real_of_int (clock w (clock_reads w1))) / 1000,
                      started_at = None, notes' = ''''\<rparr>]"
    using c s pa
    by (simp add: Let_def new_def [symmetric] paused_def r1_def r0_def newTimer_def n_def clk2)
qed

text \<open>In \<open>world_ab\<close> the timer \<open>a\<close> has run for five seconds on top of its ten; and
  the clock advances by five seconds between the \<open>start\<close> and the \<open>pause\<close> of a new
  timer.\<close>

theorem pause_folds_elapsed_time_witness:
  "fetchTimerItemsFromStore world_ab = Inr (map Some [timer_a, timer_b]) \<and>
   first_index [timer_a, timer_b] ''a'' 0 \<and>
   fst (generateRandomID world_ab) \<notin> set (map id' [timer_a, timer_b]) \<and>
   (\<exists>vs w'. pause ''a'' world_ab = (Inr (Some vs), w') \<and>
      fetchTimerItemsFromStore w' =
        Inr [Some (timer_a\<lparr>duration := 15, started_at := None\<rparr>), Some timer_b]) \<and>
   stored_records
     (snd (pause ''AHPXfmu2'' (snd (start ''AHPXfmu2'' (snd (create world_ab)))))) =
     [timer_a, timer_b,
      \<lparr>id' = ''AHPXfmu2'', name = ''Timer 3'', duration = 5, started_at = None, notes' = ''''\<rparr>]"
proof -
  have fresh: "fst (generateRandomID world_ab) \<notin> set (map id' [timer_a, timer_b])"
    by (simp add: new_id_world_ab timer_a_def timer_b_def)
  have three: "Number_toString (Suc (Suc (Suc 0))) = ''3''"
    by code_simp
  have ta: "started_at timer_a = Some (- 5000)" "duration timer_a = 10"
    by (simp_all add: timer_a_def)
  note inst = pause_folds_elapsed_time [of world_ab "[timer_a, timer_b]" "''a''" 0]
  from inst fetch_world_ab first_a
  have "\<exists>vs w'. pause ''a'' world_ab = (Inr (Some vs), w') \<and>
      fetchTimerItemsFromStore w' =
        Inr [Some (timer_a\<lparr>duration := 15, started_at := None\<rparr>), Some timer_b]"
    by (simp add: clock_world_ab ta)
  moreover from inst fetch_world_ab fresh
  have "stored_records
     (snd (pause ''AHPXfmu2'' (snd (start ''AHPXfmu2'' (snd (create world_ab)))))) =
     [timer_a, timer_b,
      \<lparr>id' = ''AHPXfmu2'', name = ''Timer 3'', duration = 5, started_at = None, notes' = ''''\<rparr>]"
    by (simp add: Let_def new_id_world_ab reads_create_ab reads_start_ab clock_world_ab three)
  ultimately show ?thesis
    using fetch_world_ab first_a fresh by simp
qed

text \<open>The claim as stated fails when the random source repeats itself. A first timer
  is created and given a duration of 100 seconds; the second \<open>create()\<close> draws its id
  again. \<open>start\<close> and \<open>pause\<close> with that id, three seconds apart, run the first timer:
  it ends with 103 seconds, and the timer just created with none.\<close>

theorem round_trip_counterexample:
  "stored_ids (run_all [Create, UpdateDuration ''AHPXfmu2'' 100] empty_world) = [''AHPXfmu2''] \<and>
   fst (generateRandomID (run_all [Create, UpdateDuration ''AHPXfmu2'' 100] empty_world)) =
     ''AHPXfmu2'' \<and>
   stored_records
     (run_all [Create, UpdateDuration ''AHPXfmu2'' 100,
               Create, Start ''AHPXfmu2'', Pause ''AHPXfmu2''] empty_world) =
     [\<lparr>id' = ''AHPXfmu2'', name = ''Timer 1'', duration = 103, started_at = None, notes' = ''''\<rparr>,
      \<lparr>id' = ''AHPXfmu2'', name = ''Timer 2'', duration = 0, started_at = None, notes' = ''''\<rparr>]"
  by code_simp

subsection \<open>C2: the views\<close>

text \<open>
  Claim C2. The view that \<open>convertTimerItem\<close> builds of a record has \<open>isRunning\<close> true
  exactly when the record's \<open>started_at\<close> is not \<open>null\<close>, \<open>offsetDuration\<close> equal to the
  stored duration plus \<open>elapsedSince(started_at)\<close>, and \<open>duration\<close> 0; \<open>elapsedSince(t)\<close>
  is \<open>(now - t) / 1000\<close> for the clock reading \<open>now\<close> it takes, and 0 when \<open>t\<close> is \<open>null\<close>.
  Whenever a call of any method returns views, they are, position by position, such
  views of the records that are stored when the call returns, each computed at a clock
  reading taken during the call.
\<close>

theorem views_show_live_state:
  "(let v = fst (convertTimerItem timer rf w)
    in isRunning v = (started_at timer \<noteq> None) \<and>
       offsetDuration v = duration timer + fst (elapsedSince (started_at timer) w) \<and>
       TimerItem.duration v = 0) \<and>
   fst (elapsedSince date w) =
     (case date of
        None \<Rightarrow> 0
      | Some t \<Rightarrow> (real_of_int (clock w (clock_reads w)) - real_of_int t) / 1000) \<and>
   (run c w = (Inr (Views vs), w') \<longrightarrow>
      (\<exists>items. fetchTimerItemsFromStore w' = Inr (map Some items) \<and>
         list_all2 (view_of (clock w) (clock_reads w) (clock_reads w')) vs items))"
proof (intro conjI impI)
  show "let v = fst (convertTimerItem timer rf w)
    in isRunning v = (started_at timer \<noteq> None) \<and>
       offsetDuration v = duration timer + fst (elapsedSince (started_at timer) w) \<and>
       TimerItem.duration v = 0"
    by (simp add: convertTimerItem_def split: prod.splits)
  show "fst (elapsedSince date w) =
     (case date of
        None \<Rightarrow> 0
      | Some t \<Rightarrow> (real_of_int (clock w (clock_reads w)) - real_of_int t) / 1000)"
    by (cases date) (simp_all add: elapsedSince_None elapsedSince_Some)
next
  assume "run c w = (Inr (Views vs), w')"
  from run_Views [OF this] show "\<exists>items. fetchTimerItemsFromStore w' = Inr (map Some items) \<and>
         list_all2 (view_of (clock w) (clock_reads w) (clock_reads w')) vs items"
    by (auto simp: published_def)
qed

text \<open>\<open>list()\<close> in \<open>world_ab\<close>: timer \<open>a\<close>, started five seconds before the clock's
  origin with ten seconds stored, is shown running with sixteen seconds at the second
  clock reading.\<close>

theorem views_show_live_state_witness:
  "run List world_ab = (Inr (Views [view_a, view_b]), snd (run List world_ab)) \<and>
   (\<exists>items. fetchTimerItemsFromStore (snd (run List world_ab)) = Inr (map Some items) \<and>
      list_all2 (view_of (clock world_ab) (clock_reads world_ab)
                   (clock_reads (snd (run List world_ab)))) [view_a, view_b] items)"
proof -
  have h: "run List world_ab = (Inr (Views [view_a, view_b]), snd (run List world_ab))"
    using list_world_ab by (simp add: prod_eq_iff)
  from views_show_live_state [of _ _ world_ab _ List "[view_a, view_b]" "snd (run List world_ab)"] h
  show ?thesis by blast
qed

subsection \<open>C3: an id that no record has\<close>

text \<open>
  Claim C3. For every stored collection and every id that none of its records has,
  \<open>start\<close>, \<open>pause\<close>, \<open>reset\<close>, \<open>updateName\<close>, \<open>updateNotes\<close> and \<open>updateDuration\<close> return
  \<open>null\<close> and leave the whole state, the persisted collection included, as it was;
  \<open>delete\<close> removes nothing: it persists the same collection and returns the views of
  all its records. None of these calls raises an error.
\<close>

theorem unknown_id_is_quiet:
  assumes "fetchTimerItemsFromStore w = Inr (map Some items)" and "i \<notin> set (map id' items)"
  shows "start i w = (Inr None, w) \<and> pause i w = (Inr None, w) \<and> reset i w = (Inr None, w) \<and>
         updateName i n w = (Inr None, w) \<and> updateNotes i m w = (Inr None, w) \<and>
         updateDuration i d w = (Inr None, w) \<and>
         (\<exists>vs w'. delete i w = (Inr vs, w') \<and>
            fetchTimerItemsFromStore w' = Inr (map Some items) \<and>
            list_all2 (view_of (clock w) (clock_reads w) (clock_reads w')) vs items)"
proof -
  have "filter (\<lambda>r. id' r \<noteq> i) items = items"
    using assms(2) by (auto simp: filter_id_conv)
  with delete_found [OF assms(1), of i]
  obtain vs w' where "delete i w = (Inr vs, w')" "persisted w w' items"
    "list_all2 (\<lambda>v r. view_of (clock w) (clock_reads w) (clock_reads w') v r \<and> requestFocus v = None) vs items"
    by auto
  then have "\<exists>vs w'. delete i w = (Inr vs, w') \<and>
            fetchTimerItemsFromStore w' = Inr (map Some items) \<and>
            list_all2 (view_of (clock w) (clock_reads w) (clock_reads w')) vs items"
    by (auto simp: persisted_fetch elim: list_all2_mono)
  then show ?thesis
    by (simp add: start_def pause_def reset_def updateName_def updateNotes_def updateDuration_def
          update_not_found [OF assms])
qed

theorem unknown_id_is_quiet_witness:
  "fetchTimerItemsFromStore world_ab = Inr (map Some [timer_a, timer_b]) \<and>
   ''zz'' \<notin> set (map id' [timer_a, timer_b]) \<and>
   start ''zz'' world_ab = (Inr None, world_ab) \<and>
   pause ''zz'' world_ab = (Inr None, world_ab) \<and>
   reset ''zz'' world_ab = (Inr None, world_ab) \<and>
   updateName ''zz'' ''n'' world_ab = (Inr None, world_ab) \<and>
   updateNotes ''zz'' ''m'' world_ab = (Inr None, world_ab) \<and>
   updateDuration ''zz'' 7 world_ab = (Inr None, world_ab) \<and>
   (\<exists>vs w'. delete ''zz'' world_ab = (Inr vs, w') \<and>
      fetchTimerItemsFromStore w' = Inr (map Some [timer_a, timer_b]) \<and>
      list_all2 (view_of (clock world_ab) (clock_reads world_ab) (clock_reads w')) vs
        [timer_a, timer_b])"
proof -
  have h: "''zz'' \<notin> set (map id' [timer_a, timer_b])"
    by (simp add: timer_a_def timer_b_def)
  from unknown_id_is_quiet [OF fetch_world_ab h, of "''n''" "''m''" 7] fetch_world_ab h
  show ?thesis by simp
qed

subsection \<open>C4: absent and malformed storage\<close>

text \<open>
  Claim C4 says that an absent and a malformed stored value are both read as the empty
  collection, without an error. The code does so for the absent value only:
  \<open>fetchTimerItemsFromStore\<close> tests for \<open>null\<close> and otherwise calls \<open>JSON.parse\<close>, whose
  \<open>SyntaxError\<close> nothing catches.

  Claim C4, amended. When the stored value is absent, reading it yields the empty
  collection, and every call returns without an error, with the same result, the same
  stored collection and the same published map as on a store that holds the empty
  array. When the stored text is not valid JSON, reading it raises \<open>SyntaxError\<close>, and
  so does every call, leaving the state as it was.
\<close>

theorem absent_store_is_empty_collection:
  "(localStorage w = None \<longrightarrow>
      fetchTimerItemsFromStore w = Inr [] \<and>
      (\<exists>r. fst (run c w) = Inr r) \<and>
      (let we = w\<lparr>localStorage := Some (Json [])\<rparr>
       in fst (run c w) = fst (run c we) \<and>
          fetchTimerItemsFromStore (snd (run c w)) = fetchTimerItemsFromStore (snd (run c we)) \<and>
          durationsStore (snd (run c w)) = durationsStore (snd (run c we)))) \<and>
   (localStorage w = Some Malformed \<longrightarrow>
      fetchTimerItemsFromStore w = Inl SyntaxError \<and> run c w = (Inl SyntaxError, w))"
proof (intro conjI impI)
  assume a: "localStorage w = None"
  let ?we = "w\<lparr>localStorage := Some (Json [])\<rparr>"
  have w: "fetchTimerItemsFromStore w = Inr []" using a by (rule fetch_absent)
  have v: "fetchTimerItemsFromStore ?we = Inr []" by (simp add: fetch_Json)
  show "fetchTimerItemsFromStore w = Inr []" by (rule w)
  from run_empty_same [OF w v refl, of c]
  show "\<exists>r. fst (run c w) = Inr r"
    and "let we = w\<lparr>localStorage := Some (Json [])\<rparr>
       in fst (run c w) = fst (run c we) \<and>
          fetchTimerItemsFromStore (snd (run c w)) = fetchTimerItemsFromStore (snd (run c we)) \<and>
          durationsStore (snd (run c w)) = durationsStore (snd (run c we))"
    unfolding Let_def by blast+
next
  assume m: "localStorage w = Some Malformed"
  show "fetchTimerItemsFromStore w = Inl SyntaxError" using m by (rule fetch_Malformed)
  show "run c w = (Inl SyntaxError, w)" using m by (rule run_Malformed)
qed

theorem absent_store_is_empty_collection_witness:
  "localStorage empty_world = None \<and> localStorage world_malformed = Some Malformed \<and>
   fetchTimerItemsFromStore empty_world = Inr [] \<and>
   (\<exists>r. fst (run Create empty_world) = Inr r) \<and>
   fst (run Create empty_world) = fst (run Create (empty_world\<lparr>localStorage := Some (Json [])\<rparr>)) \<and>
   run Create world_malformed = (Inl SyntaxError, world_malformed)"
proof -
  have a: "localStorage empty_world = None" by (simp add: empty_world_def)
  have m: "localStorage world_malformed = Some Malformed" by (simp add: world_malformed_def)
  from absent_store_is_empty_collection [of empty_world Create] a
  have "fetchTimerItemsFromStore empty_world = Inr []"
    and "\<exists>r. fst (run Create empty_world) = Inr r"
    and "fst (run Create empty_world) =
         fst (run Create (empty_world\<lparr>localStorage := Some (Json [])\<rparr>))"
    unfolding Let_def by blast+
  moreover from absent_store_is_empty_collection [of world_malformed Create] m
  have "run Create world_malformed = (Inl SyntaxError, world_malformed)"
    by blast
  ultimately show ?thesis using a m by (intro conjI)
qed

text \<open>The claim as stated fails on a store that holds malformed text: \<open>list()\<close> raises
  \<open>SyntaxError\<close> there, while on the empty array it returns no views.\<close>

theorem malformed_store_counterexample:
  "localStorage world_malformed = Some Malformed \<and>
   fetchTimerItemsFromStore world_malformed = Inl SyntaxError \<and>
   fst (run List world_malformed) = Inl SyntaxError \<and>
   fst (run List (world_malformed\<lparr>localStorage := Some (Json [])\<rparr>)) = Inr (Views [])"
  by (simp add: world_malformed_def empty_world_def list_def fetchTimerItemsFromStore_def
        getItems_def JSON_parse_def ret_views_def updateDurations_def Map_new_def)

subsection \<open>C5: reset\<close>

text \<open>
  Claim C5. For every stored collection that contains a record with the given id,
  \<open>reset(id)\<close> sets the duration of that record (the first one with the id) to 0 and its
  \<open>started_at\<close> to \<open>null\<close>, whatever they were: when the timer is running, the elapsed
  time is dropped and not added to the duration. The call returns views and raises
  nothing.
\<close>

theorem reset_discards:
  assumes "fetchTimerItemsFromStore w = Inr (map Some items)" and "first_index items i k"
  shows "\<exists>vs w'. reset i w = (Inr (Some vs), w') \<and>
           fetchTimerItemsFromStore w' =
             Inr (map Some (items[k := (items ! k)\<lparr>started_at := None, duration := 0\<rparr>])) \<and>
           duration (stored_records w' ! k) = 0 \<and> started_at (stored_records w' ! k) = None"
proof -
  let ?r = "(items ! k)\<lparr>started_at := None, duration := 0\<rparr>"
  from update_found [OF assms, of "\<lambda>item w0. (item\<lparr>started_at := None, duration := 0\<rparr>, w0)" ?r w]
  obtain vs w' where
    r: "reset i w = (Inr (Some vs), w')" and p: "persisted w w' (items[k := ?r])"
    by (auto simp: reset_def only_clock_refl)
  have f: "fetchTimerItemsFromStore w' = Inr (map Some (items[k := ?r]))"
    using p by (rule persisted_fetch)
  have k: "k < length items" using assms(2) by (simp add: first_index_def)
  have "stored_records w' = items[k := ?r]"
    using f by (rule stored_records_fetch)
  then have "stored_records w' ! k = ?r" using k by simp
  with r f show ?thesis by simp
qed

text \<open>The running timer \<open>timer_a\<close>, with ten seconds stored, is reset to zero.\<close>

theorem reset_discards_witness:
  "fetchTimerItemsFromStore world_ab = Inr (map Some [timer_a, timer_b]) \<and>
   first_index [timer_a, timer_b] ''a'' 0 \<and>
   started_at timer_a = Some (- 5000) \<and>
   (\<exists>vs w'. reset ''a'' world_ab = (Inr (Some vs), w') \<and>
      fetchTimerItemsFromStore w' =
        Inr [Some (timer_a\<lparr>started_at := None, duration := 0\<rparr>), Some timer_b])"
proof -
  have h: "first_index [timer_a, timer_b] ''a'' 0"
    by (simp add: first_index_def timer_a_def)
  from reset_discards [OF fetch_world_ab h] fetch_world_ab h show ?thesis
    by (auto simp: timer_a_def)
qed

subsection \<open>C6: create\<close>

text \<open>
  Claim C6 says that \<open>create()\<close> returns views in which \<open>requestFocus\<close> is true for the
  new record and false for all others. The code computes \<open>requestFocus\<close> as
  \<open>timer.id === id\<close>, and \<open>generateRandomID\<close> does not look at the stored ids: a stored
  record that has the id just drawn gets \<open>requestFocus = true\<close> as well.

  Claim C6, amended. For every stored collection of \<open>n\<close> records, \<open>create()\<close> appends one
  new record with the id that \<open>generateRandomID\<close> draws, name \<open>Timer {n+1}\<close>, duration 0,
  \<open>started_at = null\<close> and empty notes, leaving the stored records in place; the id has
  8 characters of the alphabet, \<open>Math.random\<close> returning numbers from 0 up to 1. It
  returns the views of all records, in which \<open>requestFocus\<close> is true exactly for the
  records whose id is the new id: for the new record only, when no stored record has
  that id. Creating three timers on an empty store yields the names \<open>Timer 1\<close>,
  \<open>Timer 2\<close>, \<open>Timer 3\<close>, in this order.
\<close>

theorem create_appends_a_timer:
  "(fetchTimerItemsFromStore w = Inr (map Some items) \<longrightarrow>
      (let i = fst (generateRandomID w);
           new = \<lparr>id' = i, name = ''Timer '' @ Number_toString (length items + 1), duration = 0,
                  started_at = None, notes' = ''''\<rparr>
       in \<exists>vs w'. create w = (Inr vs, w') \<and>
            fetchTimerItemsFromStore w' = Inr (map Some (items @ [new])) \<and>
            list_all2 (\<lambda>v r. view_of (clock w) (clock_reads w) (clock_reads w') v r \<and>
                             requestFocus v = Some (id' r = i)) vs (items @ [new]) \<and>
            (i \<notin> set (map id' items) \<longrightarrow>
               map requestFocus vs = replicate (length items) (Some False) @ [Some True]) \<and>
            (unit_random w \<longrightarrow> length i = 8 \<and> set i \<subseteq> set characters))) \<and>
   (fetchTimerItemsFromStore w = Inr [] \<longrightarrow>
      map name (stored_records (run_all [Create, Create, Create] w)) =
        [''Timer 1'', ''Timer 2'', ''Timer 3''])"
proof (intro conjI impI)
  assume fetch: "fetchTimerItemsFromStore w = Inr (map Some items)"
  define i where "i = fst (generateRandomID w)"
  define new where "new = newTimer i (length items)"
  have gen: "generateRandomID w = (i, snd (generateRandomID w))" by (simp add: i_def)
  from create_found [OF fetch gen] obtain vs w' where
    c: "create w = (Inr vs, w')" and p: "persisted (snd (generateRandomID w)) w' (items @ [new])"
    and vs: "list_all2 (\<lambda>v r. view_of (clock w) (clock_reads w) (clock_reads w') v r \<and>
                             requestFocus v = Some (id' r = i)) vs (items @ [new])"
    unfolding new_def by blast
  have f: "fetchTimerItemsFromStore w' = Inr (map Some (items @ [new]))"
    using p by (rule persisted_fetch)
  have focus: "i \<notin> set (map id' items) \<longrightarrow>
               map requestFocus vs = replicate (length items) (Some False) @ [Some True]"
    using focus_fresh [OF vs] by (simp add: new_def newTimer_fields)
  have len: "unit_random w \<longrightarrow> length i = 8 \<and> set i \<subseteq> set characters"
    using generateRandomID_length [of w] by (simp add: i_def)
  have "\<exists>vs w'. create w = (Inr vs, w') \<and>
            fetchTimerItemsFromStore w' = Inr (map Some (items @ [new])) \<and>
            list_all2 (\<lambda>v r. view_of (clock w) (clock_reads w) (clock_reads w') v r \<and>
                             requestFocus v = Some (id' r = i)) vs (items @ [new]) \<and>
            (i \<notin> set (map id' items) \<longrightarrow>
               map requestFocus vs = replicate (length items) (Some False) @ [Some True]) \<and>
            (unit_random w \<longrightarrow> length i = 8 \<and> set i \<subseteq> set characters)"
    using c f vs focus len by (intro exI [of _ vs] exI [of _ w'] conjI)
  then show "let i = fst (generateRandomID w);
           new = \<lparr>id' = i, name = ''Timer '' @ Number_toString (length items + 1), duration = 0,
                  started_at = None, notes' = ''''\<rparr>
       in \<exists>vs w'. create w = (Inr vs, w') \<and>
            fetchTimerItemsFromStore w' = Inr (map Some (items @ [new])) \<and>
            list_all2 (\<lambda>v r. view_of (clock w) (clock_reads w) (clock_reads w') v r \<and>
                             requestFocus v = Some (id' r = i)) vs (items @ [new]) \<and>
            (i \<notin> set (map id' items) \<longrightarrow>
               map requestFocus vs = replicate (length items) (Some False) @ [Some True]) \<and>
            (unit_random w \<longrightarrow> length i = 8 \<and> set i \<subseteq> set characters)"
    unfolding Let_def i_def new_def newTimer_def .
next
  assume "fetchTimerItemsFromStore w = Inr []"
  then show "map name (stored_records (run_all [Create, Create, Create] w)) =
        [''Timer 1'', ''Timer 2'', ''Timer 3'']"
    by (rule three_names)
qed

theorem create_appends_a_timer_witness:
  "fetchTimerItemsFromStore world_ab = Inr (map Some [timer_a, timer_b]) \<and>
   fst (generateRandomID world_ab) \<notin> set (map id' [timer_a, timer_b]) \<and>
   unit_random world_ab \<and>
   fetchTimerItemsFromStore empty_world = Inr [] \<and>
   (\<exists>vs w'. create world_ab = (Inr vs, w') \<and>
      fetchTimerItemsFromStore w' =
        Inr (map Some [timer_a, timer_b,
               \<lparr>id' = ''AHPXfmu2'', name = ''Timer 3'', duration = 0, started_at = None,
                notes' = ''''\<rparr>]) \<and>
      map requestFocus vs = [Some False, Some False, Some True]) \<and>
   map name (stored_records (run_all [Create, Create, Create] empty_world)) =
     [''Timer 1'', ''Timer 2'', ''Timer 3'']"
proof -
  have fresh: "fst (generateRandomID world_ab) \<notin> set (map id' [timer_a, timer_b])"
    by (simp add: new_id_world_ab timer_a_def timer_b_def)
  have three: "Number_toString (Suc (Suc (Suc 0))) = ''3''"
    by code_simp
  from create_appends_a_timer [of world_ab "[timer_a, timer_b]"] fetch_world_ab fresh
    unit_random_examples(2)
  have "\<exists>vs w'. create world_ab = (Inr vs, w') \<and>
      fetchTimerItemsFromStore w' =
        Inr (map Some [timer_a, timer_b,
               \<lparr>id' = ''AHPXfmu2'', name = ''Timer 3'', duration = 0, started_at = None,
                notes' = ''''\<rparr>]) \<and>
      map requestFocus vs = [Some False, Some False, Some True]"
    by (simp add: Let_def new_id_world_ab three del: run.simps)
       (elim exE conjE, intro exI conjI; assumption)
  moreover from create_appends_a_timer [of empty_world "[]"] fetch_empty_world
  have "map name (stored_records (run_all [Create, Create, Create] empty_world)) =
     [''Timer 1'', ''Timer 2'', ''Timer 3'']"
    by blast
  ultimately show ?thesis
    using fetch_world_ab fresh unit_random_examples(2) fetch_empty_world by (intro conjI)
qed

text \<open>The claim as stated fails when the random source repeats itself: from the empty
  store, the second \<open>create()\<close> draws the id of the first timer, and both views ask for
  the focus.\<close>

theorem create_focus_counterexample:
  "stored_ids (snd (create empty_world)) = [''AHPXfmu2''] \<and>
   fst (generateRandomID (snd (create empty_world))) = ''AHPXfmu2'' \<and>
   map_sum (\<lambda>e. e) (map requestFocus) (fst (create (snd (create empty_world)))) =
     Inr [Some True, Some True]"
  by code_simp

subsection \<open>C7: sortByIds\<close>

text \<open>
  Claim C7 says that \<open>sortByIds(ids)\<close>, when \<open>ids\<close> has as many elements as there are
  stored items, rewrites the collection in the order of \<open>ids\<close>, for every list \<open>ids\<close>.
  The code looks every id up with \<open>findIndex\<close> and stores \<open>storeItems[index]\<close>: for an id
  that no record has, this is \<open>storeItems[-1]\<close>, that is \<open>undefined\<close>, which is persisted as
  \<open>null\<close> and makes \<open>updateDurations\<close> throw.

  Claim C7, amended. If \<open>ids.length\<close> differs from the number of stored items,
  \<open>sortByIds(ids)\<close> leaves the state unchanged, without an error. Otherwise, if every
  element of \<open>ids\<close> is the id of a stored record, it rewrites the persisted collection
  so that position \<open>k\<close> holds the first stored record whose id is \<open>ids[k]\<close>: the ids of the
  persisted records are \<open>ids\<close>, and when the elements of \<open>ids\<close> are pairwise distinct,
  the persisted collection is a permutation of the stored one.
\<close>

theorem sortByIds_reorders:
  "(fetchTimerItemsFromStore w = Inr xs \<and> length ids \<noteq> length xs \<longrightarrow>
      sortByIds ids w = (Inr (), w)) \<and>
   (fetchTimerItemsFromStore w = Inr (map Some items) \<and> length ids = length items \<and>
    set ids \<subseteq> set (map id' items) \<longrightarrow>
      (\<exists>items' w'. sortByIds ids w = (Inr (), w') \<and>
         fetchTimerItemsFromStore w' = Inr (map Some items') \<and>
         map id' items' = ids \<and>
         (\<forall>k<length ids. find (\<lambda>r. id' r = ids ! k) items = Some (items' ! k)) \<and>
         (distinct ids \<longrightarrow> mset items' = mset items)))"
proof (intro conjI impI; elim conjE)
  assume "fetchTimerItemsFromStore w = Inr xs" "length ids \<noteq> length xs"
  then show "sortByIds ids w = (Inr (), w)" by (simp add: sortByIds_def)
next
  assume fetch: "fetchTimerItemsFromStore w = Inr (map Some items)"
    and len: "length ids = length items" and sub: "set ids \<subseteq> set (map id' items)"
  from finds_present [OF sub] obtain items' where
    m: "map (\<lambda>i. find (\<lambda>r. id' r = i) items) ids = map Some items'"
    and ids: "map id' items' = ids" and its: "set items' \<subseteq> set items"
    and first: "\<forall>k<length ids. find (\<lambda>r. id' r = ids ! k) items = Some (items' ! k)"
    by blast
  obtain w' where set: "setItems (map Some items') w = (Inr (), w')"
    using setItems_total by blast
  have s: "sortByIds ids w = (Inr (), w')"
    using fetch len set by (simp add: sortByIds_def sortedItems_of_find m)
  have f: "fetchTimerItemsFromStore w' = Inr (map Some items')"
    using setItems_Some [OF set] by (rule persisted_fetch)
  have len': "length items' = length items"
    using ids len by (metis length_map)
  have perm: "distinct ids \<longrightarrow> mset items' = mset items"
    using reorder_is_permutation [of id' items' items] ids its len' by simp
  from s f ids first perm
  show "\<exists>items' w'. sortByIds ids w = (Inr (), w') \<and>
         fetchTimerItemsFromStore w' = Inr (map Some items') \<and>
         map id' items' = ids \<and>
         (\<forall>k<length ids. find (\<lambda>r. id' r = ids ! k) items = Some (items' ! k)) \<and>
         (distinct ids \<longrightarrow> mset items' = mset items)"
    by (intro exI [of _ items'] exI [of _ w'] conjI)
qed

theorem sortByIds_reorders_witness:
  "fetchTimerItemsFromStore world_ab = Inr (map Some [timer_a, timer_b]) \<and>
   length [''a''] \<noteq> length (map Some [timer_a, timer_b]) \<and>
   length [''b'', ''a''] = length [timer_a, timer_b] \<and>
   set [''b'', ''a''] \<subseteq> set (map id' [timer_a, timer_b]) \<and>
   distinct [''b'', ''a''] \<and>
   sortByIds [''a''] world_ab = (Inr (), world_ab) \<and>
   (\<exists>items' w'. sortByIds [''b'', ''a''] world_ab = (Inr (), w') \<and>
      fetchTimerItemsFromStore w' = Inr (map Some items') \<and>
      map id' items' = [''b'', ''a''] \<and>
      (\<forall>k<length [''b'', ''a''].
          find (\<lambda>r. id' r = [''b'', ''a''] ! k) [timer_a, timer_b] = Some (items' ! k)) \<and>
      (distinct [''b'', ''a''] \<longrightarrow> mset items' = mset [timer_a, timer_b]))"
proof -
  have sub: "set [''b'', ''a''] \<subseteq> set (map id' [timer_a, timer_b])"
    by (simp add: timer_a_def timer_b_def)
  have d: "distinct [''b'', ''a'']" by simp
  have l1: "length [''a''] \<noteq> length (map Some [timer_a, timer_b])" by simp
  have l2: "length [''b'', ''a''] = length [timer_a, timer_b]" by simp
  note inst1 = sortByIds_reorders [of world_ab "map Some [timer_a, timer_b]" "[''a'']",
      THEN conjunct1, rule_format, OF conjI, OF fetch_world_ab l1]
  note inst2 = sortByIds_reorders [of world_ab "[]" "[''b'', ''a'']" "[timer_a, timer_b]",
      THEN conjunct2, rule_format, OF conjI, OF fetch_world_ab conjI, OF l2 sub]
  from fetch_world_ab l1 l2 sub d inst1 inst2 show ?thesis by (intro conjI)
qed

text \<open>The claim as stated fails for a list of the right length that names an id no
  record has: the call raises \<open>TypeError\<close> after it has persisted an array with a \<open>null\<close>
  in it. It also fails for a list that names an id twice: the record of that id is
  stored twice, and another record is lost.\<close>

theorem sortByIds_unknown_id_counterexample:
  "stored_ids world_ab = [''a'', ''b''] \<and>
   length [''a'', ''zz''] = length (stored_ids world_ab) \<and>
   fst (sortByIds [''a'', ''zz''] world_ab) = Inl TypeError \<and>
   localStorage (snd (sortByIds [''a'', ''zz''] world_ab)) = Some (Json [Some timer_a, None]) \<and>
   stored_ids (snd (sortByIds [''a'', ''zz''] world_ab)) = [''a''] \<and>
   fst (sortByIds [''a'', ''a''] world_ab) = Inr () \<and>
   stored_records (snd (sortByIds [''a'', ''a''] world_ab)) = [timer_a, timer_a]"
  by code_simp

subsection \<open>C8: the published map\<close>

text \<open>
  Claim C8 says that after every persisting call and every \<open>list()\<close> the published map
  has exactly one entry per stored record. The map is keyed by id, and nothing keeps
  the stored ids distinct: records that share an id share one entry.

  Claim C8, amended. After every call that returns without an error and publishes
  (\<open>list\<close>, \<open>create\<close>, \<open>delete\<close>, a verb that finds its record, \<open>sortByIds\<close> with as
  many ids as there are stored items), the stored collection is a list of records, and
  the published map, already in place when the call returns, has exactly one entry per
  id of a stored record: it maps the id to \<open>duration + elapsedSince(started_at)\<close> of
  the last stored record with that id, taken at a clock reading of that call. When the
  stored ids are pairwise distinct, the map has exactly one entry per stored record.
\<close>

theorem published_map_after_call:
  assumes "run c w = (Inr res, w')" and "publishes c w res"
  shows "\<exists>items. fetchTimerItemsFromStore w' = Inr (map Some items) \<and>
           distinct (map fst (durationsStore w')) \<and>
           fst ` set (durationsStore w') = id' ` set items \<and>
           (\<forall>k v. map_of (durationsStore w') k = Some v \<longrightarrow>
              (\<exists>r. find (\<lambda>r. id' r = k) (rev items) = Some r \<and>
                   live_total (clock w) (clock_reads w) (clock_reads w') r v)) \<and>
           (distinct (map id' items) \<longrightarrow>
              length (durationsStore w') = length items \<and>
              (\<forall>r\<in>set items. \<exists>v. map_of (durationsStore w') (id' r) = Some v \<and>
                 live_total (clock w) (clock_reads w) (clock_reads w') r v))"
proof -
  from run_publishes [OF assms] obtain items where "published w w' items" by blast
  from published_map [OF this] show ?thesis by (rule exI)
qed

text \<open>\<open>list()\<close> in \<open>world_ab\<close> publishes fifteen seconds for the running timer \<open>a\<close>: ten
  stored and five elapsed at the first clock reading.\<close>

theorem published_map_after_call_witness:
  "run List world_ab = (Inr (Views [view_a, view_b]), snd (run List world_ab)) \<and>
   publishes List world_ab (Views [view_a, view_b]) \<and>
   durationsStore (snd (run List world_ab)) = [(''a'', 15), (''b'', 3)] \<and>
   (\<exists>items. fetchTimerItemsFromStore (snd (run List world_ab)) = Inr (map Some items) \<and>
      fst ` set (durationsStore (snd (run List world_ab))) = id' ` set items \<and>
      (distinct (map id' items) \<longrightarrow> length (durationsStore (snd (run List world_ab))) = length items))"
proof -
  have h: "run List world_ab = (Inr (Views [view_a, view_b]), snd (run List world_ab))"
    using list_world_ab by (simp add: prod_eq_iff)
  have p: "publishes List world_ab (Views [view_a, view_b])"
    by (simp add: publishes_def)
  from published_map_after_call [OF h p] obtain items where
    "fetchTimerItemsFromStore (snd (run List world_ab)) = Inr (map Some items)"
    "fst ` set (durationsStore (snd (run List world_ab))) = id' ` set items"
    "distinct (map id' items) \<longrightarrow> length (durationsStore (snd (run List world_ab))) = length items"
    by blast
  then have "\<exists>items. fetchTimerItemsFromStore (snd (run List world_ab)) = Inr (map Some items) \<and>
      fst ` set (durationsStore (snd (run List world_ab))) = id' ` set items \<and>
      (distinct (map id' items) \<longrightarrow> length (durationsStore (snd (run List world_ab))) = length items)"
    by blast
  with h p list_world_ab_map show ?thesis by (intro conjI)
qed

text \<open>The claim as stated fails when two stored records share an id: after
  \<open>sortByIds(["a", "a"])\<close> on two timers, and after two \<open>create()\<close> that draw the same
  id, two records are stored and one entry is published.\<close>

theorem published_map_counterexample:
  "fst (run (SortByIds [''a'', ''a'']) world_ab) = Inr Undefined \<and>
   stored_records (snd (run (SortByIds [''a'', ''a'']) world_ab)) = [timer_a, timer_a] \<and>
   durationsStore (snd (run (SortByIds [''a'', ''a'']) world_ab)) = [(''a'', 16)] \<and>
   stored_ids (run_all [Create, Create] empty_world) = [''AHPXfmu2'', ''AHPXfmu2''] \<and>
   durationsStore (run_all [Create, Create] empty_world) = [(''AHPXfmu2'', 0)]"
  by code_simp

subsection \<open>C9: distinct ids\<close>

text \<open>
  Claim C9 says that in every stored collection reached from the empty store the ids
  are pairwise distinct. Nothing in the module makes them so: \<open>create\<close> appends the id
  that \<open>generateRandomID\<close> draws without comparing it with the stored ids, and
  \<open>sortByIds\<close> stores the record found for each element of \<open>ids\<close>, twice when an
  element occurs twice.

  Claim C9, amended. In every stored collection reached from the empty store by calls
  in which every \<open>create()\<close> draws an id that no stored record has and every
  \<open>sortByIds(ids)\<close> is given pairwise distinct ids, the ids of the stored records are
  pairwise distinct.
\<close>

theorem ids_distinct_when_guarded:
  assumes "fetchTimerItemsFromStore w = Inr []" and "guarded cs w"
  shows "distinct (stored_ids (run_all cs w))"
proof -
  have "stored_ids w = []" using assms(1) by (simp add: stored_ids_Inr ids_of_simps)
  then have "distinct (stored_ids w)" by simp
  then show ?thesis using assms(2) by (rule run_all_keeps_distinct)
qed

theorem ids_distinct_when_guarded_witness:
  "fetchTimerItemsFromStore fresh_world = Inr [] \<and> guarded example_calls fresh_world \<and>
   stored_ids (run_all example_calls fresh_world) = [''ACEGIKMO'', ''gikmoqsu''] \<and>
   distinct (stored_ids (run_all example_calls fresh_world))"
  using ids_distinct_when_guarded [OF fetch_fresh_world guarded_example]
    fetch_fresh_world guarded_example ids_example
  by (intro conjI)

text \<open>The claim as stated fails from the empty store in two ways: two \<open>create()\<close> draw
  the same id when the random source repeats itself after eight numbers; and
  \<open>sortByIds\<close> with the same id twice stores the record of that id twice.\<close>

theorem ids_not_distinct_counterexample:
  "fetchTimerItemsFromStore empty_world = Inr [] \<and>
   stored_ids (run_all [Create, Create] empty_world) = [''AHPXfmu2'', ''AHPXfmu2''] \<and>
   \<not> distinct (stored_ids (run_all [Create, Create] empty_world)) \<and>
   fetchTimerItemsFromStore fresh_world = Inr [] \<and>
   stored_ids (run_all [Create, Create, SortByIds [''ACEGIKMO'', ''ACEGIKMO'']] fresh_world) =
     [''ACEGIKMO'', ''ACEGIKMO''] \<and>
   \<not> distinct
     (stored_ids (run_all [Create, Create, SortByIds [''ACEGIKMO'', ''ACEGIKMO'']] fresh_world))"
  by code_simp

subsection \<open>C10: what the verbs leave alone\<close>

text \<open>
  Claim C10. For every stored collection and every id present in it, each verb on one
  record changes, in the first record with that id, only its own fields: \<open>start\<close> only
  \<open>started_at\<close>; \<open>pause\<close> and \<open>reset\<close> only \<open>duration\<close> and \<open>started_at\<close>; \<open>updateName\<close>
  only \<open>name\<close>; \<open>updateNotes\<close> only \<open>notes\<close>; \<open>updateDuration\<close> only \<open>duration\<close>. The
  other fields of that record, every other record and the order of the collection stay
  as they were.
\<close>

theorem verbs_touch_only_their_fields:
  assumes "fetchTimerItemsFromStore w = Inr (map Some items)" and "first_index items i k"
  shows "(\<exists>r vs w'. start i w = (Inr (Some vs), w') \<and>
            fetchTimerItemsFromStore w' = Inr (map Some (items[k := r])) \<and>
            r = (items ! k)\<lparr>started_at := started_at r\<rparr>) \<and>
         (\<exists>r vs w'. pause i w = (Inr (Some vs), w') \<and>
            fetchTimerItemsFromStore w' = Inr (map Some (items[k := r])) \<and>
            r = (items ! k)\<lparr>duration := duration r, started_at := started_at r\<rparr>) \<and>
         (\<exists>r vs w'. reset i w = (Inr (Some vs), w') \<and>
            fetchTimerItemsFromStore w' = Inr (map Some (items[k := r])) \<and>
            r = (items ! k)\<lparr>duration := duration r, started_at := started_at r\<rparr>) \<and>
         (\<exists>vs w'. updateName i n w = (Inr (Some vs), w') \<and>
            fetchTimerItemsFromStore w' = Inr (map Some (items[k := (items ! k)\<lparr>name := n\<rparr>]))) \<and>
         (\<exists>vs w'. updateNotes i m w = (Inr (Some vs), w') \<and>
            fetchTimerItemsFromStore w' = Inr (map Some (items[k := (items ! k)\<lparr>notes' := m\<rparr>]))) \<and>
         (\<exists>vs w'. updateDuration i d w = (Inr (Some vs), w') \<and>
            fetchTimerItemsFromStore w' = Inr (map Some (items[k := (items ! k)\<lparr>duration := d\<rparr>])))"
proof (intro conjI)
  let ?s = "(items ! k)\<lparr>started_at := Some (clock w (clock_reads w))\<rparr>"
  from start_found [OF assms] obtain vs w' where
    "start i w = (Inr (Some vs), w')" "persisted w w' (items[k := ?s])"
    by blast
  moreover have "?s = (items ! k)\<lparr>started_at := started_at ?s\<rparr>" by simp
  ultimately show "\<exists>r vs w'. start i w = (Inr (Some vs), w') \<and>
            fetchTimerItemsFromStore w' = Inr (map Some (items[k := r])) \<and>
            r = (items ! k)\<lparr>started_at := started_at r\<rparr>"
    using persisted_fetch by blast
next
  let ?p = "paused w (items ! k)"
  from pause_found [OF assms] obtain vs w' where
    "pause i w = (Inr (Some vs), w')" "persisted w w' (items[k := ?p])"
    by blast
  moreover have "?p = (items ! k)\<lparr>duration := duration ?p, started_at := started_at ?p\<rparr>"
    by (simp add: paused_def)
  ultimately show "\<exists>r vs w'. pause i w = (Inr (Some vs), w') \<and>
            fetchTimerItemsFromStore w' = Inr (map Some (items[k := r])) \<and>
            r = (items ! k)\<lparr>duration := duration r, started_at := started_at r\<rparr>"
    using persisted_fetch by blast
next
  let ?r = "(items ! k)\<lparr>started_at := None, duration := 0\<rparr>"
  from plain_found [OF assms, of "\<lambda>item. item\<lparr>started_at := None, duration := 0\<rparr>"]
  obtain vs w' where
    "reset i w = (Inr (Some vs), w')" "persisted w w' (items[k := ?r])"
    by (auto simp: reset_def)
  moreover have "?r = (items ! k)\<lparr>duration := duration ?r, started_at := started_at ?r\<rparr>"
    by simp
  ultimately show "\<exists>r vs w'. reset i w = (Inr (Some vs), w') \<and>
            fetchTimerItemsFromStore w' = Inr (map Some (items[k := r])) \<and>
            r = (items ! k)\<lparr>duration := duration r, started_at := started_at r\<rparr>"
    using persisted_fetch by blast
next
  from plain_found [OF assms, of "\<lambda>item. item\<lparr>name := n\<rparr>"]
  show "\<exists>vs w'. updateName i n w = (Inr (Some vs), w') \<and>
            fetchTimerItemsFromStore w' = Inr (map Some (items[k := (items ! k)\<lparr>name := n\<rparr>]))"
    by (auto simp: updateName_def persisted_fetch)
next
  from plain_found [OF assms, of "\<lambda>item. item\<lparr>notes' := m\<rparr>"]
  show "\<exists>vs w'. updateNotes i m w = (Inr (Some vs), w') \<and>
            fetchTimerItemsFromStore w' = Inr (map Some (items[k := (items ! k)\<lparr>notes' := m\<rparr>]))"
    by (auto simp: updateNotes_def persisted_fetch)
next
  from plain_found [OF assms, of "\<lambda>item. item\<lparr>duration := d\<rparr>"]
  show "\<exists>vs w'. updateDuration i d w = (Inr (Some vs), w') \<and>
            fetchTimerItemsFromStore w' = Inr (map Some (items[k := (items ! k)\<lparr>duration := d\<rparr>]))"
    by (auto simp: updateDuration_def persisted_fetch)
qed

theorem verbs_touch_only_their_fields_witness:
  "fetchTimerItemsFromStore world_ab = Inr (map Some [timer_a, timer_b]) \<and>
   first_index [timer_a, timer_b] ''b'' 1 \<and>
   (\<exists>r vs w'. start ''b'' world_ab = (Inr (Some vs), w') \<and>
      fetchTimerItemsFromStore w' = Inr (map Some [timer_a, r]) \<and>
      r = timer_b\<lparr>started_at := started_at r\<rparr>) \<and>
   (\<exists>r vs w'. pause ''b'' world_ab = (Inr (Some vs), w') \<and>
      fetchTimerItemsFromStore w' = Inr (map Some [timer_a, r]) \<and>
      r = timer_b\<lparr>duration := duration r, started_at := started_at r\<rparr>) \<and>
   (\<exists>r vs w'. reset ''b'' world_ab = (Inr (Some vs), w') \<and>
      fetchTimerItemsFromStore w' = Inr (map Some [timer_a, r]) \<and>
      r = timer_b\<lparr>duration := duration r, started_at := started_at r\<rparr>) \<and>
   (\<exists>vs w'. updateName ''b'' ''tea'' world_ab = (Inr (Some vs), w') \<and>
      fetchTimerItemsFromStore w' = Inr (map Some [timer_a, timer_b\<lparr>name := ''tea''\<rparr>])) \<and>
   (\<exists>vs w'. updateNotes ''b'' ''green'' world_ab = (Inr (Some vs), w') \<and>
      fetchTimerItemsFromStore w' = Inr (map Some [timer_a, timer_b\<lparr>notes' := ''green''\<rparr>])) \<and>
   (\<exists>vs w'. updateDuration ''b'' 42 world_ab = (Inr (Some vs), w') \<and>
      fetchTimerItemsFromStore w' = Inr (map Some [timer_a, timer_b\<lparr>duration := 42\<rparr>]))"
proof -
  from verbs_touch_only_their_fields [OF fetch_world_ab first_b, of "''tea''" "''green''" 42]
    fetch_world_ab first_b
  show ?thesis by simp
qed

end
